theory Spec2Isabelle
  imports Complex_Main "HOL-Library.Product_Lexorder"
begin

section \<open>Sparse matrix storage: the data model\<close>

text \<open>
  The repository stores a sparse matrix either in a dynamic format (class \<open>COO\<close>: two
  parallel forward lists of coordinates and values; class \<open>COOmap\<close>: a \<open>std::map\<close> keyed
  by the coordinate and ordered by \<open>Comparator<S>\<close>) or in the compressed YALE format
  (three vectors). Class \<open>Matrix\<close> inherits one dynamic and one compressed class, both of
  which inherit \<open>Dimensions\<close> virtually, and dispatches on the flag \<open>isCompressed\<close>.

  Conventions of the embedding.
  \<^item> \<open>size_t\<close> is \<open>nat\<close>. Counters that are bounded by the number of stored elements are
    incremented as naturals; the increment of an index supplied by the caller and the
    decrements are written with the wrap-around of 64-bit \<open>size_t\<close>.
  \<^item> The template parameters \<open>S\<close> (storage order), \<open>Dynamic\<close> (the dynamic class) and the
    preprocessor symbol \<open>DEBUG\<close> are explicit arguments.
  \<^item> The element type \<open>T\<close> is a type variable that only needs the operations the code
    uses on it (\<open>T{}\<close> is \<open>0\<close>).
  \<^item> A failed \<open>assert\<close> of a \<open>DEBUG\<close> build, and an access outside a container or through
    a released \<open>unique_ptr\<close>, are values of type \<open>error\<close>; a function that can fail returns
    \<open>error + result\<close>.
\<close>

datatype StorageOrder = rowMajor | columnMajor

datatype NormType = One | Infinity | Frobenius

datatype Backend = COO | COOmap

datatype error =
    SizesDontMatch
  | IndexOutOfBounds
  | Redefinition
  | AlreadyCompressed
  | AlreadyUncompressed
  | NonMatchingDimensions
  | InvalidMatrixMarket
  | OutOfRange
  | NullPointer

type_synonym index = "nat \<times> nat"

text \<open>
  \<open>x + 1\<close> and \<open>x - 1\<close> on \<open>size_t\<close> (64 bits), where the operand comes from the caller or
  from a file and the result can leave the range.
\<close>

definition size_t_increment :: "nat \<Rightarrow> nat" where
  "size_t_increment x = (x + 1) mod 2 ^ 64"

text \<open>The same function computed on \<open>int\<close>, for evaluation with binary numerals.\<close>

lemma size_t_increment_code [code]: "size_t_increment x = nat ((int x + 1) mod 2 ^ 64)"
  by (simp add: size_t_increment_def nat_mod_distrib nat_add_distrib nat_power_eq)

definition size_t_decrement :: "nat \<Rightarrow> nat" where
  "size_t_decrement x = (if x = 0 then 2 ^ 64 - 1 else x - 1)"

text \<open>\<open>Comparator<S>::operator()\<close> (Comparators.hpp).\<close>

fun Comparator :: "StorageOrder \<Rightarrow> index \<Rightarrow> index \<Rightarrow> bool" where
  "Comparator rowMajor a b =
     (if fst a \<noteq> fst b then fst a < fst b else snd a < snd b)"
| "Comparator columnMajor a b =
     (if snd a \<noteq> snd b then snd a < snd b else fst a < fst b)"

record Dimensions =
  rows :: nat
  columns :: nat

record 'a YALE =
  outerindex_ptr :: "nat list"
  innerindex_ptr :: "nat list"
  values_ptr :: "'a list"

text \<open>
  The state of the dynamic base class. \<open>COO\<close> owns two lists that are walked in step;
  \<open>COOmap\<close> owns one map, modelled by the sequence of its elements in iteration order.
\<close>

datatype 'a Dynamic =
    COO_state (indexptr: "index list") (valuesptr: "'a list")
  | COOmap_state (matrixptr: "(index \<times> 'a) list")

text \<open>
  A \<open>Matrix\<close> object: the shared \<open>Dimensions\<close>, the pointers of the compressed base
  (\<open>None\<close> when released), the pointers of the dynamic base, and the flag.
\<close>

record 'a Matrix = Dimensions +
  compressed :: "'a YALE option"
  dynamic :: "'a Dynamic option"
  isCompressed :: bool

text \<open>\<open>Dimensions::resize\<close> (Dimensions.cpp).\<close>

definition resize :: "nat \<Rightarrow> nat \<Rightarrow> 'z Dimensions_scheme \<Rightarrow> 'z Dimensions_scheme" where
  "resize r c d = d\<lparr>rows := r, columns := c\<rparr>"

definition get_rows :: "'z Dimensions_scheme \<Rightarrow> nat" where
  "get_rows d = rows d"

definition get_columns :: "'z Dimensions_scheme \<Rightarrow> nat" where
  "get_columns d = columns d"

section \<open>The list-based dynamic format (COOImpl.hpp)\<close>

text \<open>
  \<open>COO::find_dynamic_const\<close>. The two iterators advance together; reading or advancing
  the value iterator when the value list is exhausted is outside the container.
\<close>

fun COO_find_dynamic_const ::
  "StorageOrder \<Rightarrow> index list \<Rightarrow> 'a::zero list \<Rightarrow> nat \<Rightarrow> nat \<Rightarrow> error + 'a" where
  "COO_find_dynamic_const S [] vs i j = Inr 0"
| "COO_find_dynamic_const S (p # ps) vs i j =
     (if fst p = i \<and> snd p = j then (case vs of [] \<Rightarrow> Inl OutOfRange | v # _ \<Rightarrow> Inr v)
      else if \<not> Comparator S p (i, j) then Inr 0
      else (case vs of [] \<Rightarrow> Inl OutOfRange | _ # vs' \<Rightarrow> COO_find_dynamic_const S ps vs' i j))"

text \<open>
  \<open>COO::find_dynamic\<close>: the result is the new pair of lists and the position of the slot
  the returned reference designates.
\<close>

fun COO_find_dynamic ::
  "StorageOrder \<Rightarrow> index list \<Rightarrow> 'a::zero list \<Rightarrow> nat \<Rightarrow> nat \<Rightarrow>
   error + (index list \<times> 'a list \<times> nat)" where
  "COO_find_dynamic S [] vs i j = Inr ([(i, j)], 0 # vs, 0)"
| "COO_find_dynamic S (p # ps) vs i j =
     (if fst p = i \<and> snd p = j then (case vs of [] \<Rightarrow> Inl OutOfRange | _ \<Rightarrow> Inr (p # ps, vs, 0))
      else if \<not> Comparator S p (i, j) then Inr ((i, j) # p # ps, 0 # vs, 0)
      else (case vs of
              [] \<Rightarrow> Inl OutOfRange
            | v # vs' \<Rightarrow>
               (case COO_find_dynamic S ps vs' i j of
                  Inl e \<Rightarrow> Inl e
                | Inr (ps', vs'', k) \<Rightarrow> Inr (p # ps', v # vs'', Suc k))))"

text \<open>\<open>COO::remove_dynamic\<close>: the flag returned and the lists left.\<close>

fun COO_remove_dynamic ::
  "index list \<Rightarrow> 'a list \<Rightarrow> nat \<Rightarrow> nat \<Rightarrow> error + (bool \<times> index list \<times> 'a list)" where
  "COO_remove_dynamic [] vs i j = Inr (False, [], vs)"
| "COO_remove_dynamic (p # ps) vs i j =
     (if fst p = i \<and> snd p = j then
        (case vs of [] \<Rightarrow> Inl OutOfRange | _ # vs' \<Rightarrow> Inr (True, ps, vs'))
      else (case vs of
              [] \<Rightarrow> (if ps = [] then Inr (False, [p], []) else Inl OutOfRange)
            | v # vs' \<Rightarrow>
               (case COO_remove_dynamic ps vs' i j of
                  Inl e \<Rightarrow> Inl e
                | Inr (b, ps', vs'') \<Rightarrow> Inr (b, p # ps', v # vs''))))"

text \<open>\<open>COO::get_num_elements_dynamic\<close>: the distance from begin to end of the value list.\<close>

definition COO_get_num_elements_dynamic :: "'a list \<Rightarrow> nat" where
  "COO_get_num_elements_dynamic vs = length vs"

section \<open>The map-based dynamic format (COOmapImpl.hpp)\<close>

text \<open>
  \<open>std::map<std::pair<size_t, size_t>, T, Comparator<S>>\<close> is library code. It is
  modelled by the sequence of its elements in iteration order, which is ascending in
  \<open>Comparator<S>\<close>; two keys are the same key when neither precedes the other.
  \<open>map_find\<close> is \<open>find\<close>, \<open>map_subscript\<close> is \<open>operator[]\<close> (it adds a value-initialised element
  when the key is absent), \<open>map_assign\<close> is \<open>m[k] = v\<close>, \<open>map_erase\<close> is \<open>erase(k)\<close> with the
  number of elements removed.
\<close>

fun map_find :: "StorageOrder \<Rightarrow> index \<Rightarrow> (index \<times> 'a) list \<Rightarrow> 'a option" where
  "map_find S k [] = None"
| "map_find S k (e # m) =
     (if Comparator S (fst e) k then map_find S k m
      else if Comparator S k (fst e) then None
      else Some (snd e))"

fun map_subscript :: "StorageOrder \<Rightarrow> index \<Rightarrow> (index \<times> 'a::zero) list \<Rightarrow> (index \<times> 'a) list" where
  "map_subscript S k [] = [(k, 0)]"
| "map_subscript S k (e # m) =
     (if Comparator S (fst e) k then e # map_subscript S k m
      else if Comparator S k (fst e) then (k, 0) # e # m
      else e # m)"

fun map_store :: "StorageOrder \<Rightarrow> index \<Rightarrow> 'a \<Rightarrow> (index \<times> 'a) list \<Rightarrow> (index \<times> 'a) list" where
  "map_store S k v [] = []"
| "map_store S k v (e # m) =
     (if Comparator S (fst e) k then e # map_store S k v m
      else if Comparator S k (fst e) then e # m
      else (fst e, v) # m)"

definition map_assign ::
  "StorageOrder \<Rightarrow> index \<Rightarrow> 'a::zero \<Rightarrow> (index \<times> 'a) list \<Rightarrow> (index \<times> 'a) list" where
  "map_assign S k v m = map_store S k v (map_subscript S k m)"

fun map_erase :: "StorageOrder \<Rightarrow> index \<Rightarrow> (index \<times> 'a) list \<Rightarrow> nat \<times> (index \<times> 'a) list" where
  "map_erase S k [] = (0, [])"
| "map_erase S k (e # m) =
     (if Comparator S (fst e) k then (case map_erase S k m of (n, m') \<Rightarrow> (n, e # m'))
      else if Comparator S k (fst e) then (0, e # m)
      else (1, m))"

text \<open>\<open>COOmap::find_dynamic\<close>: the map after \<open>operator[]\<close>; the reference is to the slot of the key.\<close>

definition COOmap_find_dynamic ::
  "StorageOrder \<Rightarrow> (index \<times> 'a::zero) list \<Rightarrow> nat \<Rightarrow> nat \<Rightarrow> (index \<times> 'a) list" where
  "COOmap_find_dynamic S m i j = map_subscript S (i, j) m"

text \<open>
  \<open>COOmap::find_dynamic_const\<close>. The method is const, but the map is reached through the
  \<open>unique_ptr\<close> and \<open>operator[]\<close> is applied to it, so the model returns the map as well.
\<close>

definition COOmap_find_dynamic_const ::
  "StorageOrder \<Rightarrow> (index \<times> 'a::zero) list \<Rightarrow> nat \<Rightarrow> nat \<Rightarrow> 'a \<times> (index \<times> 'a) list" where
  "COOmap_find_dynamic_const S m i j =
     (if map_find S (i, j) m \<noteq> None then
        (let m' = map_subscript S (i, j) m
         in (case map_find S (i, j) m' of Some v \<Rightarrow> (v, m') | None \<Rightarrow> (0, m')))
      else (0, m))"

text \<open>\<open>COOmap::remove_dynamic\<close>: the count that \<open>erase\<close> returns, converted to \<open>bool\<close>.\<close>

definition COOmap_remove_dynamic ::
  "StorageOrder \<Rightarrow> (index \<times> 'a) list \<Rightarrow> nat \<Rightarrow> nat \<Rightarrow> bool \<times> (index \<times> 'a) list" where
  "COOmap_remove_dynamic S m i j = (case map_erase S (i, j) m of (n, m') \<Rightarrow> (n \<noteq> 0, m'))"

definition COOmap_get_num_elements_dynamic :: "(index \<times> 'a) list \<Rightarrow> nat" where
  "COOmap_get_num_elements_dynamic m = length m"

section \<open>The compressed format (YALEImpl.hpp)\<close>

text \<open>\<open>YALE::inner_outer\<close>.\<close>

fun inner_outer :: "StorageOrder \<Rightarrow> nat \<Rightarrow> nat \<Rightarrow> nat \<times> nat" where
  "inner_outer rowMajor i j = (i, j)"
| "inner_outer columnMajor i j = (j, i)"

text \<open>
  \<open>std::lower_bound\<close> on a vector of \<open>size_t\<close>, as libstdc++ implements it: the length of the
  range is the signed difference \<open>last - first\<close>, and the search halves it while it is
  positive. Positions are offsets from \<open>begin()\<close>. A call with \<open>last\<close> before \<open>first\<close> (which
  the C++ standard leaves undefined) therefore returns \<open>first\<close>.
\<close>

function lower_bound :: "nat list \<Rightarrow> int \<Rightarrow> int \<Rightarrow> nat \<Rightarrow> error + int" where
  "lower_bound xs first len val =
     (if 0 < len then
        (if first + len div 2 < 0 \<or> int (length xs) \<le> first + len div 2 then Inl OutOfRange
         else if xs ! nat (first + len div 2) < val
           then lower_bound xs (first + len div 2 + 1) (len - len div 2 - 1) val
           else lower_bound xs first (len div 2) val)
      else Inr first)"
  by pat_completeness auto
termination
  by (relation "measure (\<lambda>(xs, first, len, val). nat len)") auto

text \<open>Reading a vector at a signed offset.\<close>

definition vector_at :: "'b list \<Rightarrow> int \<Rightarrow> error + 'b" where
  "vector_at xs k = (if 0 \<le> k \<and> k < int (length xs) then Inr (xs ! nat k) else Inl OutOfRange)"

text \<open>\<open>std::vector::insert\<close> before a position: valid up to and including \<open>end()\<close>.\<close>

definition vector_insert :: "'b list \<Rightarrow> nat \<Rightarrow> 'b \<Rightarrow> error + 'b list" where
  "vector_insert xs k x = (if k \<le> length xs then Inr (take k xs @ x # drop k xs) else Inl OutOfRange)"

text \<open>\<open>std::vector::erase\<close> of the element at a position.\<close>

definition vector_erase :: "'b list \<Rightarrow> nat \<Rightarrow> error + 'b list" where
  "vector_erase xs k = (if k < length xs then Inr (take k xs @ drop (Suc k) xs) else Inl OutOfRange)"

text \<open>The loops \<open>(*innerindex_ptr)[l]++\<close> and \<open>(*innerindex_ptr)[l]--\<close> over a list of positions.\<close>

fun increment_each :: "nat list \<Rightarrow> nat list \<Rightarrow> error + nat list" where
  "increment_each [] xs = Inr xs"
| "increment_each (l # ls) xs =
     (if l < length xs then increment_each ls (xs[l := xs ! l + 1]) else Inl OutOfRange)"

fun decrement_each :: "nat list \<Rightarrow> nat list \<Rightarrow> error + nat list" where
  "decrement_each [] xs = Inr xs"
| "decrement_each (l # ls) xs =
     (if l < length xs then decrement_each ls (xs[l := size_t_decrement (xs ! l)])
      else Inl OutOfRange)"

text \<open>\<open>YALE::find_compressed_const\<close>.\<close>

definition find_compressed_const ::
  "StorageOrder \<Rightarrow> 'a::zero YALE \<Rightarrow> nat \<Rightarrow> nat \<Rightarrow> error + 'a" where
  "find_compressed_const S y i j =
     (case inner_outer S i j of (inn, out) \<Rightarrow>
      if length (innerindex_ptr y) \<le> inn + 1 then Inl OutOfRange
      else
        (let cumulated = int (innerindex_ptr y ! inn);
             current_line = int (innerindex_ptr y ! (inn + 1)) - cumulated
         in case lower_bound (outerindex_ptr y) cumulated (current_line - 1) out of
              Inl e \<Rightarrow> Inl e
            | Inr lower \<Rightarrow>
               (case vector_at (outerindex_ptr y) lower of
                  Inl e \<Rightarrow> Inl e
                | Inr o' \<Rightarrow> if o' = out then vector_at (values_ptr y) lower else Inr 0)))"

text \<open>
  \<open>YALE::find_compressed\<close>: the arrays afterwards and the position in \<open>values\<close> of the slot
  the returned reference designates. The loop that shifts the line starts runs up to
  \<open>rows + 1\<close>, where \<open>rows\<close> is the member of \<open>Dimensions\<close>.
\<close>

definition find_compressed ::
  "StorageOrder \<Rightarrow> nat \<Rightarrow> 'a::zero YALE \<Rightarrow> nat \<Rightarrow> nat \<Rightarrow> error + ('a YALE \<times> nat)" where
  "find_compressed S rws y i j =
     (case inner_outer S i j of (inn, out) \<Rightarrow>
      if length (innerindex_ptr y) \<le> inn + 1 then Inl OutOfRange
      else
        (let cumulated = int (innerindex_ptr y ! inn);
             current_line = int (innerindex_ptr y ! (inn + 1)) - cumulated
         in case lower_bound (outerindex_ptr y) cumulated (current_line - 1) out of
              Inl e \<Rightarrow> Inl e
            | Inr lower \<Rightarrow>
               (case vector_at (outerindex_ptr y) lower of
                  Inl e \<Rightarrow> Inl e
                | Inr o' \<Rightarrow>
                   if o' = out then
                     (if nat lower < length (values_ptr y) then Inr (y, nat lower)
                      else Inl OutOfRange)
                   else
                     (let pos = (if out < o' then nat lower else nat lower + 1)
                      in case vector_insert (values_ptr y) pos 0 of
                           Inl e \<Rightarrow> Inl e
                         | Inr vals \<Rightarrow>
                            (case vector_insert (outerindex_ptr y) pos out of
                               Inl e \<Rightarrow> Inl e
                             | Inr outs \<Rightarrow>
                                (case increment_each [1 + inn ..< rws + 1] (innerindex_ptr y) of
                                   Inl e \<Rightarrow> Inl e
                                 | Inr inns \<Rightarrow>
                                    Inr (\<lparr>outerindex_ptr = outs, innerindex_ptr = inns,
                                          values_ptr = vals\<rparr>, pos)))))))"

text \<open>\<open>YALE::remove_compressed\<close>: the search loop over the slice of the line, then the removal.\<close>

fun remove_scan :: "nat list \<Rightarrow> nat \<Rightarrow> nat list \<Rightarrow> error + nat option" where
  "remove_scan outs out [] = Inr None"
| "remove_scan outs out (k # ks) =
     (if length outs \<le> k then Inl OutOfRange
      else if outs ! k = out then Inr (Some k)
      else remove_scan outs out ks)"

definition remove_compressed ::
  "StorageOrder \<Rightarrow> 'a YALE \<Rightarrow> nat \<Rightarrow> nat \<Rightarrow> error + (bool \<times> 'a YALE)" where
  "remove_compressed S y i j =
     (case inner_outer S i j of (inner_index_to_find, outer_index_to_find) \<Rightarrow>
      if length (innerindex_ptr y) \<le> inner_index_to_find + 1 then Inl OutOfRange
      else
        (let row_start = innerindex_ptr y ! inner_index_to_find;
             row_end = innerindex_ptr y ! (inner_index_to_find + 1)
         in case remove_scan (outerindex_ptr y) outer_index_to_find [row_start ..< row_end] of
              Inl e \<Rightarrow> Inl e
            | Inr None \<Rightarrow> Inr (False, y)
            | Inr (Some k) \<Rightarrow>
               (case vector_erase (values_ptr y) k of
                  Inl e \<Rightarrow> Inl e
                | Inr vals \<Rightarrow>
                   (case vector_erase (outerindex_ptr y) k of
                      Inl e \<Rightarrow> Inl e
                    | Inr outs \<Rightarrow>
                       (case decrement_each
                               [inner_index_to_find + 1 ..< length (innerindex_ptr y)]
                               (innerindex_ptr y) of
                          Inl e \<Rightarrow> Inl e
                        | Inr inns \<Rightarrow>
                           Inr (True, \<lparr>outerindex_ptr = outs, innerindex_ptr = inns,
                                       values_ptr = vals\<rparr>))))))"

text \<open>\<open>YALE::get_num_elements_compressed\<close>.\<close>

definition get_num_elements_compressed :: "'a YALE \<Rightarrow> nat" where
  "get_num_elements_compressed y = length (values_ptr y)"

text \<open>
  \<open>by_vector_compressed\<close>: the outer loop runs over \<open>i < m.rows\<close>, the inner loop over the
  positions of line \<open>i\<close>.
\<close>

fun by_vector_line ::
  "StorageOrder \<Rightarrow> 'a::{zero,plus,times} YALE \<Rightarrow> 'a list \<Rightarrow> nat \<Rightarrow> nat list \<Rightarrow> 'a list \<Rightarrow>
   error + 'a list" where
  "by_vector_line S y v i [] result = Inr result"
| "by_vector_line S y v i (j # js) result =
     (if length (outerindex_ptr y) \<le> j \<or> length (values_ptr y) \<le> j then Inl OutOfRange
      else
        (case S of
           rowMajor \<Rightarrow>
             if length v \<le> outerindex_ptr y ! j \<or> length result \<le> i then Inl OutOfRange
             else by_vector_line S y v i js
                    (result[i := result ! i + values_ptr y ! j * v ! (outerindex_ptr y ! j)])
         | columnMajor \<Rightarrow>
             if length result \<le> outerindex_ptr y ! j \<or> length v \<le> i then Inl OutOfRange
             else by_vector_line S y v i js
                    (result[outerindex_ptr y ! j :=
                              result ! (outerindex_ptr y ! j) + values_ptr y ! j * v ! i])))"

fun by_vector_rows ::
  "StorageOrder \<Rightarrow> 'a::{zero,plus,times} YALE \<Rightarrow> 'a list \<Rightarrow> nat list \<Rightarrow> 'a list \<Rightarrow>
   error + 'a list" where
  "by_vector_rows S y v [] result = Inr result"
| "by_vector_rows S y v (i # is) result =
     (if length (innerindex_ptr y) \<le> i + 1 then Inl OutOfRange
      else
        (case by_vector_line S y v i [innerindex_ptr y ! i ..< innerindex_ptr y ! (i + 1)] result of
           Inl e \<Rightarrow> Inl e
         | Inr result' \<Rightarrow> by_vector_rows S y v is result'))"

definition by_vector_compressed ::
  "StorageOrder \<Rightarrow> nat \<Rightarrow> 'a::{zero,plus,times} YALE \<Rightarrow> 'a list \<Rightarrow> error + 'a list" where
  "by_vector_compressed S rws y v = by_vector_rows S y v [0 ..< rws] (replicate rws 0)"

section \<open>Matrix-vector product and norms of the dynamic formats\<close>

text \<open>\<open>by_vector_dynamic\<close> for \<open>COO\<close> and for \<open>COOmap\<close>.\<close>

fun COO_by_vector_loop ::
  "index list \<Rightarrow> 'a::{zero,plus,times} list \<Rightarrow> 'a list \<Rightarrow> 'a list \<Rightarrow> error + 'a list" where
  "COO_by_vector_loop [] vs v result = Inr result"
| "COO_by_vector_loop (p # ps) [] v result = Inl OutOfRange"
| "COO_by_vector_loop (p # ps) (x # xs) v result =
     (if length result \<le> fst p \<or> length v \<le> snd p then Inl OutOfRange
      else COO_by_vector_loop ps xs v (result[fst p := result ! fst p + x * v ! snd p]))"

definition COO_by_vector_dynamic ::
  "nat \<Rightarrow> index list \<Rightarrow> 'a::{zero,plus,times} list \<Rightarrow> 'a list \<Rightarrow> error + 'a list" where
  "COO_by_vector_dynamic rws ps vs v = COO_by_vector_loop ps vs v (replicate rws 0)"

fun COOmap_by_vector_loop ::
  "(index \<times> 'a::{zero,plus,times}) list \<Rightarrow> 'a list \<Rightarrow> 'a list \<Rightarrow> error + 'a list" where
  "COOmap_by_vector_loop [] v result = Inr result"
| "COOmap_by_vector_loop (e # m) v result =
     (if length result \<le> fst (fst e) \<or> length v \<le> snd (fst e) then Inl OutOfRange
      else COOmap_by_vector_loop m v
             (result[fst (fst e) := result ! fst (fst e) + snd e * v ! snd (fst e)]))"

definition COOmap_by_vector_dynamic ::
  "nat \<Rightarrow> (index \<times> 'a::{zero,plus,times}) list \<Rightarrow> 'a list \<Rightarrow> error + 'a list" where
  "COOmap_by_vector_dynamic rws m v = COOmap_by_vector_loop m v (replicate rws 0)"

text \<open>
  Norms. The accumulators are \<open>double\<close>; they are idealised as \<open>real\<close>, and \<open>mag\<close> stands for
  \<open>std::abs\<close> on \<open>T\<close> followed by the conversion to \<open>double\<close>. \<open>*std::max_element\<close> on an empty
  vector dereferences \<open>end()\<close>. In the Frobenius norm the two magnitudes are multiplied here
  after the conversion; the code multiplies them in the type \<open>std::abs\<close> returns, where for
  an integer \<open>T\<close> the product can leave the range of the type.
\<close>

definition max_element :: "real list \<Rightarrow> error + real" where
  "max_element xs = (case xs of [] \<Rightarrow> Inl OutOfRange | x # xs' \<Rightarrow> Inr (foldl max x xs'))"

text \<open>\<open>COO::next_line\<close>.\<close>

fun next_line :: "StorageOrder \<Rightarrow> nat \<Rightarrow> index" where
  "next_line rowMajor i = (i + 1, 0)"
| "next_line columnMajor i = (0, i + 1)"

text \<open>The loop of \<open>COO::norm_dynamic\<close> for the norm along the lines, with \<open>i\<close>, \<open>sum\<close> and \<open>res\<close>.\<close>

fun COO_norm_lines ::
  "StorageOrder \<Rightarrow> ('a \<Rightarrow> real) \<Rightarrow> index list \<Rightarrow> 'a list \<Rightarrow> nat \<Rightarrow> real \<Rightarrow> real \<Rightarrow> error + real" where
  "COO_norm_lines S mag [] vs i sm res = Inr (max sm res)"
| "COO_norm_lines S mag (p # ps) [] i sm res = Inl OutOfRange"
| "COO_norm_lines S mag (p # ps) (x # xs) i sm res =
     (if Comparator S p (next_line S i) then COO_norm_lines S mag ps xs i (sm + mag x) res
      else COO_norm_lines S mag ps xs (i + 1) (mag x) (max sm res))"

text \<open>The loop that adds magnitudes into \<open>partial_res\<close>, at the position \<open>sel\<close> picks.\<close>

fun COO_norm_across ::
  "(index \<Rightarrow> nat) \<Rightarrow> ('a \<Rightarrow> real) \<Rightarrow> index list \<Rightarrow> 'a list \<Rightarrow> real list \<Rightarrow> error + real list" where
  "COO_norm_across sel mag [] vs partial_res = Inr partial_res"
| "COO_norm_across sel mag (p # ps) [] partial_res = Inl OutOfRange"
| "COO_norm_across sel mag (p # ps) (x # xs) partial_res =
     (if length partial_res \<le> sel p then Inl OutOfRange
      else COO_norm_across sel mag ps xs (partial_res[sel p := partial_res ! sel p + mag x]))"

definition frobenius :: "('a \<Rightarrow> real) \<Rightarrow> 'a list \<Rightarrow> real" where
  "frobenius mag vs = sqrt (foldl (\<lambda>sm x. sm + mag x * mag x) 0 vs)"

text \<open>\<open>COO::norm_dynamic<N>\<close>.\<close>

definition COO_norm_dynamic ::
  "StorageOrder \<Rightarrow> NormType \<Rightarrow> ('a \<Rightarrow> real) \<Rightarrow> nat \<Rightarrow> nat \<Rightarrow> index list \<Rightarrow> 'a list \<Rightarrow>
   error + real" where
  "COO_norm_dynamic S N mag rws cls ps vs =
     (if (N = Infinity \<and> S = rowMajor) \<or> (N = One \<and> S = columnMajor) then
        COO_norm_lines S mag ps vs 0 0 0
      else if N = One \<and> S = rowMajor then
        (case COO_norm_across snd mag ps vs (replicate cls 0) of
           Inl e \<Rightarrow> Inl e | Inr partial_res \<Rightarrow> max_element partial_res)
      else if N = Infinity \<and> S = columnMajor then
        (case COO_norm_across fst mag ps vs (replicate rws 0) of
           Inl e \<Rightarrow> Inl e | Inr partial_res \<Rightarrow> max_element partial_res)
      else Inr (frobenius mag vs))"

text \<open>\<open>COOmap::norm_dynamic<N>\<close>.\<close>

fun COOmap_norm_across ::
  "(index \<Rightarrow> nat) \<Rightarrow> ('a \<Rightarrow> real) \<Rightarrow> (index \<times> 'a) list \<Rightarrow> real list \<Rightarrow> error + real list" where
  "COOmap_norm_across sel mag [] partial_res = Inr partial_res"
| "COOmap_norm_across sel mag (e # m) partial_res =
     (if length partial_res \<le> sel (fst e) then Inl OutOfRange
      else COOmap_norm_across sel mag m
             (partial_res[sel (fst e) := partial_res ! sel (fst e) + mag (snd e)]))"

definition COOmap_norm_dynamic ::
  "NormType \<Rightarrow> ('a \<Rightarrow> real) \<Rightarrow> nat \<Rightarrow> nat \<Rightarrow> (index \<times> 'a) list \<Rightarrow> error + real" where
  "COOmap_norm_dynamic N mag rws cls m =
     (if N = Infinity then
        (case COOmap_norm_across fst mag m (replicate rws 0) of
           Inl e \<Rightarrow> Inl e | Inr partial_res \<Rightarrow> max_element partial_res)
      else if N = One then
        (case COOmap_norm_across snd mag m (replicate cls 0) of
           Inl e \<Rightarrow> Inl e | Inr partial_res \<Rightarrow> max_element partial_res)
      else Inr (frobenius mag (map snd m)))"

section \<open>Sorting by a permutation (Comparators.hpp)\<close>

text \<open>
  \<open>std::sort\<close> is library code; its contract fixes the result up to the order of elements
  that are equivalent under the comparison. The model is insertion sort, which keeps
  equivalent elements in the order they had; the library need not. The results on the
  constructors use only that the outcome is a sorted permutation of the input.
\<close>

fun insert_sorted :: "('b \<Rightarrow> 'b \<Rightarrow> bool) \<Rightarrow> 'b \<Rightarrow> 'b list \<Rightarrow> 'b list" where
  "insert_sorted lt x [] = [x]"
| "insert_sorted lt x (y # ys) = (if lt y x then y # insert_sorted lt x ys else x # y # ys)"

definition std_sort :: "('b \<Rightarrow> 'b \<Rightarrow> bool) \<Rightarrow> 'b list \<Rightarrow> 'b list" where
  "std_sort lt xs = foldr (insert_sorted lt) xs []"

text \<open>\<open>sort_permutation\<close>.\<close>

definition sort_permutation :: "StorageOrder \<Rightarrow> index list \<Rightarrow> nat list" where
  "sort_permutation S vec =
     std_sort (\<lambda>i j. Comparator S (vec ! i) (vec ! j)) [0 ..< length vec]"

text \<open>
  \<open>apply_permutation\<close>. The inner \<open>while (i != j)\<close> follows the cycle of \<open>i\<close> and swaps along
  it; nothing in the code bounds it, so it is a partial function (\<open>None\<close>: it does not
  return). The outer loop visits \<open>i = 0, ..., vec.size() - 1\<close>.
\<close>

partial_function (option) permute_cycle ::
  "nat list \<Rightarrow> nat \<Rightarrow> 'b list \<Rightarrow> bool list \<Rightarrow> nat \<Rightarrow> nat \<Rightarrow> (error + ('b list \<times> bool list)) option" where
  "permute_cycle p i vec done prev_j j =
     (if i = j then Some (Inr (vec, done))
      else if length vec \<le> prev_j \<or> length vec \<le> j \<or> length done \<le> j \<or> length p \<le> j
        then Some (Inl OutOfRange)
      else permute_cycle p i (vec[prev_j := vec ! j, j := vec ! prev_j]) (done[j := True]) j (p ! j))"

declare permute_cycle.simps [code]

fun permute_loop ::
  "nat list \<Rightarrow> nat list \<Rightarrow> 'b list \<Rightarrow> bool list \<Rightarrow> (error + 'b list) option" where
  "permute_loop p [] vec done = Some (Inr vec)"
| "permute_loop p (i # is) vec done =
     (if length done \<le> i then Some (Inl OutOfRange)
      else if done ! i then permute_loop p is vec done
      else if length p \<le> i then Some (Inl OutOfRange)
      else
        (case permute_cycle p i vec (done[i := True]) i (p ! i) of
           None \<Rightarrow> None
         | Some (Inl e) \<Rightarrow> Some (Inl e)
         | Some (Inr (vec', done')) \<Rightarrow> permute_loop p is vec' done'))"

definition apply_permutation :: "'b list \<Rightarrow> nat list \<Rightarrow> (error + 'b list) option" where
  "apply_permutation vec p = permute_loop p [0 ..< length vec] vec (replicate (length vec) False)"

section \<open>Constructors of the dynamic formats\<close>

text \<open>
  The loop that fills the two lists of a \<open>COO\<close> from the sorted vectors, walking both
  backwards and pushing to the front. The three constructors of \<open>COO\<close> repeat it with
  different checks: \<open>bounds\<close> (the index is compared with the dimensions), \<open>dup\<close> (the index
  is compared with the one visited just before) and \<open>grow\<close> (the maxima are tracked).
  All checks are \<open>assert\<close>s of a \<open>DEBUG\<close> build. The accumulator is
  \<open>(max_index_r, max_index_c, *indexptr, *valuesptr)\<close>.
\<close>

fun COO_fill ::
  "bool \<Rightarrow> bool \<Rightarrow> bool \<Rightarrow> bool \<Rightarrow> Dimensions \<Rightarrow> index option \<Rightarrow> index list \<Rightarrow> 'a list \<Rightarrow>
   nat \<times> nat \<times> index list \<times> 'a list \<Rightarrow> error + (nat \<times> nat \<times> index list \<times> 'a list)" where
  "COO_fill debug bounds dup grow dims prev (p # ps) (v # vs) (mr, mc, il, vl) =
     (if debug \<and> bounds \<and> \<not> (fst p < rows dims \<and> snd p < columns dims) then Inl IndexOutOfBounds
      else if debug \<and> dup \<and> prev = Some p then Inl Redefinition
      else COO_fill debug bounds dup grow dims (Some p) ps vs
             (if grow then max mr (fst p) else mr, if grow then max mc (snd p) else mc,
              p # il, v # vl))"
| "COO_fill debug bounds dup grow dims prev [] vs acc = Inr acc"
| "COO_fill debug bounds dup grow dims prev ps [] acc = Inr acc"

text \<open>
  The common body of the constructors of \<open>COO\<close>: sort both vectors by the permutation, fill
  the lists, and resize when the dimensions were not given. \<open>dims\<close> is the content of the
  \<open>Dimensions\<close> base when the constructor starts.
\<close>

definition COO_build ::
  "bool \<Rightarrow> bool \<Rightarrow> bool \<Rightarrow> bool \<Rightarrow> StorageOrder \<Rightarrow> Dimensions \<Rightarrow> index list \<Rightarrow> 'a list \<Rightarrow>
   (error + (Dimensions \<times> 'a Dynamic)) option" where
  "COO_build debug bounds dup grow S dims indexes vals =
     (let p = sort_permutation S indexes in
      case apply_permutation indexes p of
        None \<Rightarrow> None
      | Some (Inl e) \<Rightarrow> Some (Inl e)
      | Some (Inr tempindexes) \<Rightarrow>
         (case apply_permutation vals p of
            None \<Rightarrow> None
          | Some (Inl e) \<Rightarrow> Some (Inl e)
          | Some (Inr tempvalues) \<Rightarrow>
             (case COO_fill debug bounds dup grow dims None (rev tempindexes) (rev tempvalues)
                     (0, 0, [], []) of
                Inl e \<Rightarrow> Some (Inl e)
              | Inr (mr, mc, il, vl) \<Rightarrow>
                 Some (Inr (if grow then resize (size_t_increment mr) (size_t_increment mc) dims else dims,
                            COO_state il vl)))))"

text \<open>\<open>COO::COO(std::bool_constant<B>, indexes, values)\<close>.\<close>

definition COO_from_triplets ::
  "bool \<Rightarrow> bool \<Rightarrow> StorageOrder \<Rightarrow> Dimensions \<Rightarrow> index list \<Rightarrow> 'a list \<Rightarrow>
   (error + (Dimensions \<times> 'a Dynamic)) option" where
  "COO_from_triplets debug B S dims indexes vals =
     (if debug \<and> length indexes \<noteq> length vals then Some (Inl SizesDontMatch)
      else COO_build debug B True (\<not> B) S dims indexes vals)"

text \<open>
  \<open>COO::COO(std::bool_constant<B>, std::map<std::pair<size_t, size_t>, T> const&)\<close>. The
  argument is given by the sequence of its elements in iteration order.
\<close>

definition COO_from_map ::
  "bool \<Rightarrow> bool \<Rightarrow> StorageOrder \<Rightarrow> Dimensions \<Rightarrow> (index \<times> 'a) list \<Rightarrow>
   (error + (Dimensions \<times> 'a Dynamic)) option" where
  "COO_from_map debug B S dims m = COO_build debug B False (\<not> B) S dims (map fst m) (map snd m)"

text \<open>
  A Matrix Market file that could be opened and read: its first line, the three numbers
  of the size line, and the entry lines that follow (indices as written, from 1). Parsing
  the text is outside the model.
\<close>

record 'a MatrixMarket =
  banner :: string
  mm_rows :: nat
  mm_columns :: nat
  mm_nnz :: nat
  mm_entries :: "(nat \<times> nat \<times> 'a) list"

definition read_entries :: "'a MatrixMarket \<Rightarrow> (index \<times> 'a) list" where
  "read_entries f =
     map (\<lambda>(r, c, v). ((size_t_decrement r, size_t_decrement c), v)) (take (mm_nnz f) (mm_entries f))"

text \<open>\<open>COO::COO(std::string& file_name)\<close>.\<close>

definition COO_from_file ::
  "bool \<Rightarrow> StorageOrder \<Rightarrow> 'a MatrixMarket \<Rightarrow> (error + (Dimensions \<times> 'a Dynamic)) option" where
  "COO_from_file debug S f =
     (if debug \<and> take 14 (banner f) \<noteq> ''%%MatrixMarket'' then Some (Inl InvalidMatrixMarket)
      else COO_build debug True True False S \<lparr>rows = mm_rows f, columns = mm_columns f\<rparr>
             (map fst (read_entries f)) (map snd (read_entries f)))"

text \<open>
  \<open>COOmap::COOmap(std::bool_constant<B>, indexes, values)\<close>: the loop over the indexes, with
  the accumulator \<open>(max_index_r, max_index_c, *matrixptr)\<close>.
\<close>

fun COOmap_fill ::
  "bool \<Rightarrow> bool \<Rightarrow> StorageOrder \<Rightarrow> Dimensions \<Rightarrow> index list \<Rightarrow> 'a::zero list \<Rightarrow>
   nat \<times> nat \<times> (index \<times> 'a) list \<Rightarrow> error + (nat \<times> nat \<times> (index \<times> 'a) list)" where
  "COOmap_fill debug B S dims [] vs acc = Inr acc"
| "COOmap_fill debug B S dims (p # ps) vs (mr, mc, m) =
     (if debug \<and> B \<and> \<not> (fst p < rows dims \<and> snd p < columns dims) then Inl IndexOutOfBounds
      else if debug \<and> map_find S p m \<noteq> None then Inl Redefinition
      else
        (case vs of
           [] \<Rightarrow> Inl OutOfRange
         | v # vs' \<Rightarrow>
            COOmap_fill debug B S dims ps vs'
              (if B then mr else max mr (fst p), if B then mc else max mc (snd p),
               map_assign S p v m)))"

definition COOmap_from_triplets ::
  "bool \<Rightarrow> bool \<Rightarrow> StorageOrder \<Rightarrow> Dimensions \<Rightarrow> index list \<Rightarrow> 'a::zero list \<Rightarrow>
   error + (Dimensions \<times> 'a Dynamic)" where
  "COOmap_from_triplets debug B S dims indexes vals =
     (if debug \<and> length indexes \<noteq> length vals then Inl SizesDontMatch
      else
        (case COOmap_fill debug B S dims indexes vals (0, 0, []) of
           Inl e \<Rightarrow> Inl e
         | Inr (mr, mc, m) \<Rightarrow>
            Inr (if B then dims else resize (size_t_increment mr) (size_t_increment mc) dims, COOmap_state m)))"

text \<open>\<open>COOmap::COOmap(std::bool_constant<B>, std::map<std::pair<size_t, size_t>, T> const&)\<close>.\<close>

fun COOmap_fill_map ::
  "bool \<Rightarrow> bool \<Rightarrow> StorageOrder \<Rightarrow> Dimensions \<Rightarrow> (index \<times> 'a::zero) list \<Rightarrow>
   nat \<times> nat \<times> (index \<times> 'a) list \<Rightarrow> error + (nat \<times> nat \<times> (index \<times> 'a) list)" where
  "COOmap_fill_map debug B S dims [] acc = Inr acc"
| "COOmap_fill_map debug B S dims (e # es) (mr, mc, m) =
     (if debug \<and> B \<and> \<not> (fst (fst e) < rows dims \<and> snd (fst e) < columns dims)
        then Inl IndexOutOfBounds
      else COOmap_fill_map debug B S dims es
             (if B then mr else max mr (fst (fst e)), if B then mc else max mc (snd (fst e)),
              map_assign S (fst e) (snd e) m))"

definition COOmap_from_map ::
  "bool \<Rightarrow> bool \<Rightarrow> StorageOrder \<Rightarrow> Dimensions \<Rightarrow> (index \<times> 'a::zero) list \<Rightarrow>
   error + (Dimensions \<times> 'a Dynamic)" where
  "COOmap_from_map debug B S dims inp =
     (case COOmap_fill_map debug B S dims inp (0, 0, []) of
        Inl e \<Rightarrow> Inl e
      | Inr (mr, mc, m) \<Rightarrow>
         Inr (if B then dims else resize (size_t_increment mr) (size_t_increment mc) dims, COOmap_state m))"

text \<open>\<open>COOmap::COOmap(std::string& file_name)\<close>.\<close>

definition COOmap_from_file ::
  "bool \<Rightarrow> StorageOrder \<Rightarrow> 'a::zero MatrixMarket \<Rightarrow> error + (Dimensions \<times> 'a Dynamic)" where
  "COOmap_from_file debug S f =
     (if debug \<and> take 14 (banner f) \<noteq> ''%%MatrixMarket'' then Inl InvalidMatrixMarket
      else Inr (\<lparr>rows = mm_rows f, columns = mm_columns f\<rparr>,
                COOmap_state (foldl (\<lambda>m e. map_assign S (fst e) (snd e) m) [] (read_entries f))))"

section \<open>The conversion protocol\<close>

text \<open>
  The producers keep their position in function-local static iterators, which the call
  with \<open>first_it\<close> resets. The position is an explicit cursor here: the number of elements
  already passed. A triplet is \<open>(row, column, value)\<close>.
\<close>

text \<open>\<open>COO::compress_from_dynamic\<close> and \<open>COOmap::compress_from_dynamic\<close>.\<close>

definition compress_from_dynamic ::
  "bool \<Rightarrow> 'a Dynamic option \<Rightarrow> nat \<Rightarrow> error + ((nat \<times> nat \<times> 'a) \<times> nat)" where
  "compress_from_dynamic first_it d cur =
     (let k = (if first_it then 0 else cur) in
      case d of
        None \<Rightarrow> Inl NullPointer
      | Some (COO_state ps vs) \<Rightarrow>
          if k < length ps \<and> k < length vs then Inr ((fst (ps ! k), snd (ps ! k), vs ! k), k + 1)
          else Inl OutOfRange
      | Some (COOmap_state m) \<Rightarrow>
          if k < length m then Inr ((fst (fst (m ! k)), snd (fst (m ! k)), snd (m ! k)), k + 1)
          else Inl OutOfRange)"

text \<open>The loop at the end of \<open>YALE::compress_from_triplets\<close>: \<open>*next += *prev\<close> along the vector.\<close>

fun running_sum :: "nat \<Rightarrow> nat list \<Rightarrow> nat list" where
  "running_sum prev [] = []"
| "running_sum prev (x # xs) = (x + prev) # running_sum (x + prev) xs"

definition prefix_sums :: "nat list \<Rightarrow> error + nat list" where
  "prefix_sums xs = (case xs of [] \<Rightarrow> Inl OutOfRange | x # xs' \<Rightarrow> Inr (x # running_sum x xs'))"

text \<open>\<open>YALE::compress_from_triplets\<close>.\<close>

definition compress_from_triplets ::
  "bool \<Rightarrow> StorageOrder \<Rightarrow> 'a YALE \<Rightarrow> nat \<times> nat \<times> 'a \<Rightarrow> error + 'a YALE" where
  "compress_from_triplets last_it S y t =
     (case t of (r, c, v) \<Rightarrow>
      let line = (case S of rowMajor \<Rightarrow> r | columnMajor \<Rightarrow> c);
          out = (case S of rowMajor \<Rightarrow> c | columnMajor \<Rightarrow> r)
      in if length (innerindex_ptr y) \<le> line + 1 then Inl OutOfRange
         else
           (let inns = (innerindex_ptr y)[line + 1 := innerindex_ptr y ! (line + 1) + 1];
                outs = outerindex_ptr y @ [out];
                vals = values_ptr y @ [v]
            in if last_it then
                 (case prefix_sums inns of
                    Inl e \<Rightarrow> Inl e
                  | Inr inns' \<Rightarrow>
                     Inr \<lparr>outerindex_ptr = outs, innerindex_ptr = inns', values_ptr = vals\<rparr>)
               else Inr \<lparr>outerindex_ptr = outs, innerindex_ptr = inns, values_ptr = vals\<rparr>))"

text \<open>
  \<open>YALE::uncompress_from_compressed\<close>: the cursor is \<open>(innerit, outerit, valuesit)\<close>, each as
  an offset.
\<close>

definition uncompress_from_compressed ::
  "bool \<Rightarrow> StorageOrder \<Rightarrow> 'a YALE option \<Rightarrow> nat \<times> nat \<times> nat \<Rightarrow>
   error + ((nat \<times> nat \<times> 'a) \<times> (nat \<times> nat \<times> nat))" where
  "uncompress_from_compressed first_it S yo cur =
     (case yo of
        None \<Rightarrow> Inl NullPointer
      | Some y \<Rightarrow>
         (case (if first_it then (0, 0, 0) else cur) of (innerit, outerit, valuesit) \<Rightarrow>
          if length (outerindex_ptr y) \<le> outerit \<or> length (values_ptr y) \<le> valuesit
            then Inl OutOfRange
          else if length (innerindex_ptr y) \<le> innerit + 1 then Inl OutOfRange
          else
            Inr (case S of
                   rowMajor \<Rightarrow> (innerit, outerindex_ptr y ! outerit, values_ptr y ! valuesit)
                 | columnMajor \<Rightarrow> (outerindex_ptr y ! outerit, innerit, values_ptr y ! valuesit),
                 (if innerindex_ptr y ! (innerit + 1) \<le> valuesit + 1 then innerit + 1 else innerit,
                  outerit + 1, valuesit + 1))))"

text \<open>
  \<open>COO::uncompress_from_triplets\<close> (\<open>insert_after\<close> the element inserted last; the cursor is
  the number of elements before the insertion point) and \<open>COOmap::uncompress_from_triplets\<close>.
\<close>

definition uncompress_from_triplets ::
  "bool \<Rightarrow> StorageOrder \<Rightarrow> 'a::zero Dynamic \<Rightarrow> nat \<times> nat \<times> 'a \<Rightarrow> nat \<Rightarrow> error + ('a Dynamic \<times> nat)" where
  "uncompress_from_triplets first_it S d t cur =
     (case t of (r, c, v) \<Rightarrow>
      (case d of
         COO_state ps vs \<Rightarrow>
           (let k = (if first_it then 0 else cur) in
            if length ps < k \<or> length vs < k then Inl OutOfRange
            else Inr (COO_state (take k ps @ (r, c) # drop k ps) (take k vs @ v # drop k vs), k + 1))
       | COOmap_state m \<Rightarrow> Inr (COOmap_state (map_assign S (r, c) v m), cur)))"

section \<open>The Matrix facade (MatrixImpl.hpp)\<close>

text \<open>
  The body shared by the constructors that build the dynamic base: the compressed
  pointers are null, and the constructor body sets \<open>isCompressed = false\<close>.
\<close>

definition Matrix_of_dynamic :: "Dimensions \<times> 'a Dynamic \<Rightarrow> 'a Matrix" where
  "Matrix_of_dynamic dd =
     \<lparr>rows = rows (fst dd), columns = columns (fst dd),
      compressed = None, dynamic = Some (snd dd), isCompressed = False\<rparr>"

text \<open>
  \<open>Matrix(UseDynamic, indexes, values)\<close> and \<open>Matrix(UseDynamic, r, c, indexes, values)\<close>:
  \<open>given\<close> holds the dimensions when they are supplied; otherwise the \<open>Dimensions\<close> base is
  default-initialised and holds \<open>junk\<close> until the dynamic constructor resizes it.
\<close>

definition Matrix_from_triplets ::
  "bool \<Rightarrow> StorageOrder \<Rightarrow> Backend \<Rightarrow> (nat \<times> nat) option \<Rightarrow> Dimensions \<Rightarrow> index list \<Rightarrow>
   'a::zero list \<Rightarrow> (error + 'a Matrix) option" where
  "Matrix_from_triplets debug S D given junk indexes vals =
     (let B = (given \<noteq> None);
          dims = (case given of None \<Rightarrow> junk | Some (r, c) \<Rightarrow> \<lparr>rows = r, columns = c\<rparr>)
      in case D of
           COO \<Rightarrow> map_option (map_sum id Matrix_of_dynamic)
                    (COO_from_triplets debug B S dims indexes vals)
         | COOmap \<Rightarrow> Some (map_sum id Matrix_of_dynamic
                             (COOmap_from_triplets debug B S dims indexes vals)))"

text \<open>\<open>Matrix(UseDynamic, map)\<close> and \<open>Matrix(UseDynamic, r, c, map)\<close>.\<close>

definition Matrix_from_map ::
  "bool \<Rightarrow> StorageOrder \<Rightarrow> Backend \<Rightarrow> (nat \<times> nat) option \<Rightarrow> Dimensions \<Rightarrow>
   (index \<times> 'a::zero) list \<Rightarrow> (error + 'a Matrix) option" where
  "Matrix_from_map debug S D given junk inp =
     (let B = (given \<noteq> None);
          dims = (case given of None \<Rightarrow> junk | Some (r, c) \<Rightarrow> \<lparr>rows = r, columns = c\<rparr>)
      in case D of
           COO \<Rightarrow> map_option (map_sum id Matrix_of_dynamic) (COO_from_map debug B S dims inp)
         | COOmap \<Rightarrow> Some (map_sum id Matrix_of_dynamic (COOmap_from_map debug B S dims inp)))"

text \<open>
  \<open>Matrix(std::string& file_name)\<close>: the constructor body is empty, so the member
  \<open>isCompressed\<close> is left as the storage of the object held it; \<open>uninit\<close> is that content.
\<close>

definition Matrix_from_file ::
  "bool \<Rightarrow> StorageOrder \<Rightarrow> Backend \<Rightarrow> bool \<Rightarrow> 'a::zero MatrixMarket \<Rightarrow> (error + 'a Matrix) option" where
  "Matrix_from_file debug S D uninit f =
     (let finish = (\<lambda>dd. (Matrix_of_dynamic dd)\<lparr>isCompressed := uninit\<rparr>)
      in case D of
           COO \<Rightarrow> map_option (map_sum id finish) (COO_from_file debug S f)
         | COOmap \<Rightarrow> Some (map_sum id finish (COOmap_from_file debug S f)))"

text \<open>\<open>Matrix::is_compressed\<close>.\<close>

definition is_compressed :: "'a Matrix \<Rightarrow> bool" where
  "is_compressed m = isCompressed m"

text \<open>\<open>Matrix::get_num_elements\<close>.\<close>

definition get_num_elements :: "'a Matrix \<Rightarrow> error + nat" where
  "get_num_elements m =
     (if \<not> isCompressed m then
        (case dynamic m of
           None \<Rightarrow> Inl NullPointer
         | Some (COO_state ps vs) \<Rightarrow> Inr (COO_get_num_elements_dynamic vs)
         | Some (COOmap_state mp) \<Rightarrow> Inr (COOmap_get_num_elements_dynamic mp))
      else
        (case compressed m of
           None \<Rightarrow> Inl NullPointer
         | Some y \<Rightarrow> Inr (get_num_elements_compressed y)))"

text \<open>
  \<open>Matrix::operator()(i, j) const\<close>: the value returned and the object afterwards.
\<close>

definition operator_call_const ::
  "bool \<Rightarrow> StorageOrder \<Rightarrow> 'a::zero Matrix \<Rightarrow> nat \<Rightarrow> nat \<Rightarrow> error + ('a \<times> 'a Matrix)" where
  "operator_call_const debug S m i j =
     (if debug \<and> \<not> (i < rows m \<and> j < columns m) then Inl IndexOutOfBounds
      else if \<not> isCompressed m then
        (case dynamic m of
           None \<Rightarrow> Inl NullPointer
         | Some (COO_state ps vs) \<Rightarrow>
            (case COO_find_dynamic_const S ps vs i j of Inl e \<Rightarrow> Inl e | Inr v \<Rightarrow> Inr (v, m))
         | Some (COOmap_state mp) \<Rightarrow>
            (case COOmap_find_dynamic_const S mp i j of
               (v, mp') \<Rightarrow> Inr (v, m\<lparr>dynamic := Some (COOmap_state mp')\<rparr>)))
      else
        (case compressed m of
           None \<Rightarrow> Inl NullPointer
         | Some y \<Rightarrow>
            (case find_compressed_const S y i j of Inl e \<Rightarrow> Inl e | Inr v \<Rightarrow> Inr (v, m))))"

text \<open>
  \<open>Matrix::operator()(i, j)\<close>, the overload that returns \<open>T&\<close>: the object afterwards and
  the slot that the reference designates. \<open>write_slot\<close> is an assignment through the
  reference, \<open>read_slot\<close> a read.
\<close>

datatype slot = COO_slot nat | COOmap_slot index | YALE_slot nat

definition operator_call ::
  "bool \<Rightarrow> StorageOrder \<Rightarrow> 'a::zero Matrix \<Rightarrow> nat \<Rightarrow> nat \<Rightarrow> error + ('a Matrix \<times> slot)" where
  "operator_call debug S m i j =
     (if debug \<and> \<not> (i < rows m \<and> j < columns m) then Inl IndexOutOfBounds
      else if \<not> isCompressed m then
        (case dynamic m of
           None \<Rightarrow> Inl NullPointer
         | Some (COO_state ps vs) \<Rightarrow>
            (case COO_find_dynamic S ps vs i j of
               Inl e \<Rightarrow> Inl e
             | Inr (ps', vs', k) \<Rightarrow> Inr (m\<lparr>dynamic := Some (COO_state ps' vs')\<rparr>, COO_slot k))
         | Some (COOmap_state mp) \<Rightarrow>
            Inr (m\<lparr>dynamic := Some (COOmap_state (COOmap_find_dynamic S mp i j))\<rparr>,
                 COOmap_slot (i, j)))
      else
        (case compressed m of
           None \<Rightarrow> Inl NullPointer
         | Some y \<Rightarrow>
            (case find_compressed S (rows m) y i j of
               Inl e \<Rightarrow> Inl e
             | Inr (y', k) \<Rightarrow> Inr (m\<lparr>compressed := Some y'\<rparr>, YALE_slot k))))"

fun write_slot :: "StorageOrder \<Rightarrow> 'a Matrix \<Rightarrow> slot \<Rightarrow> 'a \<Rightarrow> 'a Matrix" where
  "write_slot S m (COO_slot k) v =
     (case dynamic m of
        Some (COO_state ps vs) \<Rightarrow> m\<lparr>dynamic := Some (COO_state ps (vs[k := v]))\<rparr>
      | _ \<Rightarrow> m)"
| "write_slot S m (COOmap_slot key) v =
     (case dynamic m of
        Some (COOmap_state mp) \<Rightarrow> m\<lparr>dynamic := Some (COOmap_state (map_store S key v mp))\<rparr>
      | _ \<Rightarrow> m)"
| "write_slot S m (YALE_slot k) v =
     (case compressed m of
        Some y \<Rightarrow> m\<lparr>compressed := Some (y\<lparr>values_ptr := (values_ptr y)[k := v]\<rparr>)\<rparr>
      | None \<Rightarrow> m)"

text \<open>The statement \<open>m(i, j) = v\<close>.\<close>

definition assign ::
  "bool \<Rightarrow> StorageOrder \<Rightarrow> 'a::zero Matrix \<Rightarrow> nat \<Rightarrow> nat \<Rightarrow> 'a \<Rightarrow> error + 'a Matrix" where
  "assign debug S m i j v =
     (case operator_call debug S m i j of
        Inl e \<Rightarrow> Inl e
      | Inr (m', sl) \<Rightarrow> Inr (write_slot S m' sl v))"

text \<open>\<open>Matrix::remove\<close>.\<close>

definition remove ::
  "bool \<Rightarrow> StorageOrder \<Rightarrow> 'a Matrix \<Rightarrow> nat \<Rightarrow> nat \<Rightarrow> error + (bool \<times> 'a Matrix)" where
  "remove debug S m i j =
     (if debug \<and> \<not> (i < rows m \<and> j < columns m) then Inl IndexOutOfBounds
      else if \<not> isCompressed m then
        (case dynamic m of
           None \<Rightarrow> Inl NullPointer
         | Some (COO_state ps vs) \<Rightarrow>
            (case COO_remove_dynamic ps vs i j of
               Inl e \<Rightarrow> Inl e
             | Inr (b, ps', vs') \<Rightarrow> Inr (b, m\<lparr>dynamic := Some (COO_state ps' vs')\<rparr>))
         | Some (COOmap_state mp) \<Rightarrow>
            (case COOmap_remove_dynamic S mp i j of
               (b, mp') \<Rightarrow> Inr (b, m\<lparr>dynamic := Some (COOmap_state mp')\<rparr>)))
      else
        (case compressed m of
           None \<Rightarrow> Inl NullPointer
         | Some y \<Rightarrow>
            (case remove_compressed S y i j of
               Inl e \<Rightarrow> Inl e
             | Inr (b, y') \<Rightarrow> Inr (b, m\<lparr>compressed := Some y'\<rparr>))))"

text \<open>\<open>operator*(Matrix const&, std::vector<T> const&)\<close>.\<close>

definition operator_times ::
  "bool \<Rightarrow> StorageOrder \<Rightarrow> 'a::{zero,plus,times} Matrix \<Rightarrow> 'a list \<Rightarrow> error + 'a list" where
  "operator_times debug S m v =
     (if debug \<and> columns m \<noteq> length v then Inl NonMatchingDimensions
      else if \<not> isCompressed m then
        (case dynamic m of
           None \<Rightarrow> Inl NullPointer
         | Some (COO_state ps vs) \<Rightarrow> COO_by_vector_dynamic (rows m) ps vs v
         | Some (COOmap_state mp) \<Rightarrow> COOmap_by_vector_dynamic (rows m) mp v)
      else
        (case compressed m of
           None \<Rightarrow> Inl NullPointer
         | Some y \<Rightarrow> by_vector_compressed S (rows m) y v))"

text \<open>\<open>Matrix::compress\<close>: the loop over \<open>i < num_elements\<close>, then the method.\<close>

fun compress_loop ::
  "StorageOrder \<Rightarrow> 'a Dynamic option \<Rightarrow> nat \<Rightarrow> nat list \<Rightarrow> nat \<Rightarrow> 'a YALE \<Rightarrow> error + 'a YALE" where
  "compress_loop S d num_elements [] cur y = Inr y"
| "compress_loop S d num_elements (i # is) cur y =
     (case compress_from_dynamic (i = 0) d cur of
        Inl e \<Rightarrow> Inl e
      | Inr (t, cur') \<Rightarrow>
         (case compress_from_triplets (i = num_elements - 1) S y t of
            Inl e \<Rightarrow> Inl e
          | Inr y' \<Rightarrow> compress_loop S d num_elements is cur' y'))"

definition initialize_compressed :: "nat \<Rightarrow> 'a YALE" where
  "initialize_compressed insize =
     \<lparr>outerindex_ptr = [], innerindex_ptr = replicate insize 0, values_ptr = []\<rparr>"

definition compress :: "bool \<Rightarrow> StorageOrder \<Rightarrow> 'a Matrix \<Rightarrow> error + 'a Matrix" where
  "compress debug S m =
     (if debug \<and> isCompressed m then Inl AlreadyCompressed
      else
        (case get_num_elements m of
           Inl e \<Rightarrow> Inl e
         | Inr num_elements \<Rightarrow>
            (case compress_loop S (dynamic m) num_elements [0 ..< num_elements] 0
                    (initialize_compressed
                       ((case S of rowMajor \<Rightarrow> get_rows m | columnMajor \<Rightarrow> get_columns m) + 1)) of
               Inl e \<Rightarrow> Inl e
             | Inr y \<Rightarrow> Inr (m\<lparr>compressed := Some y, dynamic := None, isCompressed := True\<rparr>))))"

text \<open>\<open>Matrix::uncompress\<close>.\<close>

fun uncompress_loop ::
  "StorageOrder \<Rightarrow> 'a::zero YALE option \<Rightarrow> nat list \<Rightarrow> nat \<times> nat \<times> nat \<Rightarrow> nat \<Rightarrow> 'a Dynamic \<Rightarrow>
   error + 'a Dynamic" where
  "uncompress_loop S yo [] cur dcur d = Inr d"
| "uncompress_loop S yo (i # is) cur dcur d =
     (case uncompress_from_compressed (i = 0) S yo cur of
        Inl e \<Rightarrow> Inl e
      | Inr (t, cur') \<Rightarrow>
         (case uncompress_from_triplets (i = 0) S d t dcur of
            Inl e \<Rightarrow> Inl e
          | Inr (d', dcur') \<Rightarrow> uncompress_loop S yo is cur' dcur' d'))"

definition initialize_dynamic :: "Backend \<Rightarrow> 'a Dynamic" where
  "initialize_dynamic D = (case D of COO \<Rightarrow> COO_state [] [] | COOmap \<Rightarrow> COOmap_state [])"

definition uncompress :: "bool \<Rightarrow> StorageOrder \<Rightarrow> Backend \<Rightarrow> 'a::zero Matrix \<Rightarrow> error + 'a Matrix" where
  "uncompress debug S D m =
     (if debug \<and> \<not> isCompressed m then Inl AlreadyUncompressed
      else
        (case get_num_elements m of
           Inl e \<Rightarrow> Inl e
         | Inr num_elements \<Rightarrow>
            (case uncompress_loop S (compressed m) [0 ..< num_elements] (0, 0, 0) 0
                    (initialize_dynamic D) of
               Inl e \<Rightarrow> Inl e
             | Inr d \<Rightarrow> Inr (m\<lparr>compressed := None, dynamic := Some d, isCompressed := False\<rparr>))))"

section \<open>Notions used in the proofs\<close>

text \<open>
  A list of length \<open>n\<close> that holds each of \<open>0, ..., n - 1\<close> once, and the sort key that
  \<open>Comparator<S>\<close> compares lexicographically.
\<close>

definition is_permutation :: "nat list \<Rightarrow> bool" where
  "is_permutation p = (distinct p \<and> set p = {..<length p})"

definition key :: "StorageOrder \<Rightarrow> index \<Rightarrow> nat \<times> nat" where
  "key S a = (case S of rowMajor \<Rightarrow> a | columnMajor \<Rightarrow> (snd a, fst a))"

section \<open>Observations on the dynamic state\<close>

text \<open>
  The stored entries of a dynamic state in iteration order, and the invariant of \<open>COO\<close>
  that its two lists have the same length.
\<close>

definition entries :: "'a Dynamic \<Rightarrow> (index \<times> 'a) list" where
  "entries d = (case d of COO_state ps vs \<Rightarrow> zip ps vs | COOmap_state m \<Rightarrow> m)"

definition paired :: "'a Dynamic \<Rightarrow> bool" where
  "paired d = (case d of COO_state ps vs \<Rightarrow> length ps = length vs | COOmap_state m \<Rightarrow> True)"

section \<open>Example matrices\<close>

text \<open>
  The matrix with the entries \<open>(0,0) = 1\<close> and \<open>(2,1) = 1\<close>, row-major, \<open>3 \<times> 2\<close>: row 1 holds
  no entry. Its compressed arrays are those of the edge-case matrix \<open>m10\<close> of tests.cpp.
\<close>

definition edge_dynamic :: "int Matrix" where
  "edge_dynamic =
     \<lparr>rows = 3, columns = 2, compressed = None,
      dynamic = Some (COO_state [(0, 0), (2, 1)] [1, 1]), isCompressed = False\<rparr>"

definition edge_dynamic_map :: "int Matrix" where
  "edge_dynamic_map =
     \<lparr>rows = 3, columns = 2, compressed = None,
      dynamic = Some (COOmap_state [((0, 0), 1), ((2, 1), 1)]), isCompressed = False\<rparr>"

definition edge_compressed :: "int Matrix" where
  "edge_compressed =
     \<lparr>rows = 3, columns = 2,
      compressed =
        Some \<lparr>outerindex_ptr = [0, 1], innerindex_ptr = [0, 1, 1, 2], values_ptr = [1, 1]\<rparr>,
      dynamic = None, isCompressed = True\<rparr>"

text \<open>The \<open>1 \<times> 2\<close> matrix \<open>(1 2)\<close>, column-major.\<close>

definition wide_dynamic :: "int Matrix" where
  "wide_dynamic =
     \<lparr>rows = 1, columns = 2, compressed = None,
      dynamic = Some (COO_state [(0, 0), (0, 1)] [1, 2]), isCompressed = False\<rparr>"

definition wide_compressed :: "int Matrix" where
  "wide_compressed =
     \<lparr>rows = 1, columns = 2,
      compressed =
        Some \<lparr>outerindex_ptr = [0, 0], innerindex_ptr = [0, 1, 2], values_ptr = [1, 2]\<rparr>,
      dynamic = None, isCompressed = True\<rparr>"

text \<open>
  The \<open>3 \<times> 3\<close> row-major matrix with the entries \<open>(0,0) = 1\<close> and \<open>(2,0) = 1\<close>, compressed,
  and what the assignment \<open>m(1, 2) = 7\<close> leaves.
\<close>

definition gap_dynamic :: "int Matrix" where
  "gap_dynamic =
     \<lparr>rows = 3, columns = 3, compressed = None,
      dynamic = Some (COO_state [(0, 0), (2, 0)] [1, 1]), isCompressed = False\<rparr>"

definition gap_compressed :: "int Matrix" where
  "gap_compressed =
     \<lparr>rows = 3, columns = 3,
      compressed =
        Some \<lparr>outerindex_ptr = [0, 0], innerindex_ptr = [0, 1, 1, 2], values_ptr = [1, 1]\<rparr>,
      dynamic = None, isCompressed = True\<rparr>"

definition gap_assigned :: "int Matrix" where
  "gap_assigned =
     \<lparr>rows = 3, columns = 3,
      compressed =
        Some \<lparr>outerindex_ptr = [0, 0, 2], innerindex_ptr = [0, 1, 2, 3], values_ptr = [1, 1, 7]\<rparr>,
      dynamic = None, isCompressed = True\<rparr>"

text \<open>
  The \<open>2 \<times> 3\<close> column-major matrix with first row \<open>(1 2 3)\<close> and second row empty,
  compressed, and what the assignment \<open>m(1, 0) = 7\<close> leaves.
\<close>

definition flat_dynamic :: "int Matrix" where
  "flat_dynamic =
     \<lparr>rows = 2, columns = 3, compressed = None,
      dynamic = Some (COO_state [(0, 0), (0, 1), (0, 2)] [1, 2, 3]), isCompressed = False\<rparr>"

definition flat_compressed :: "int Matrix" where
  "flat_compressed =
     \<lparr>rows = 2, columns = 3,
      compressed =
        Some \<lparr>outerindex_ptr = [0, 0, 0], innerindex_ptr = [0, 1, 2, 3], values_ptr = [1, 2, 3]\<rparr>,
      dynamic = None, isCompressed = True\<rparr>"

definition flat_assigned :: "int Matrix" where
  "flat_assigned =
     \<lparr>rows = 2, columns = 3,
      compressed =
        Some \<lparr>outerindex_ptr = [0, 1, 0, 0], innerindex_ptr = [0, 2, 3, 3],
              values_ptr = [1, 7, 2, 3]\<rparr>,
      dynamic = None, isCompressed = True\<rparr>"

text \<open>
  The column-major \<open>2 \<times> 3\<close> matrix with the entries \<open>(0,0) = 1\<close> and \<open>(1,2) = 1\<close> (column 1 is
  empty), and the row-major \<open>3 \<times> 2\<close> matrix with the single entry \<open>(0,0) = 1\<close> (rows 1 and 2
  are empty), both compressed.
\<close>

definition hole_dynamic :: "int Matrix" where
  "hole_dynamic =
     \<lparr>rows = 2, columns = 3, compressed = None,
      dynamic = Some (COOmap_state [((0, 0), 1), ((1, 2), 1)]), isCompressed = False\<rparr>"

definition hole_compressed :: "int Matrix" where
  "hole_compressed =
     \<lparr>rows = 2, columns = 3,
      compressed =
        Some \<lparr>outerindex_ptr = [0, 1], innerindex_ptr = [0, 1, 1, 2], values_ptr = [1, 1]\<rparr>,
      dynamic = None, isCompressed = True\<rparr>"

definition tail_dynamic :: "int Matrix" where
  "tail_dynamic =
     \<lparr>rows = 3, columns = 2, compressed = None,
      dynamic = Some (COO_state [(0, 0)] [1]), isCompressed = False\<rparr>"

definition tail_compressed :: "int Matrix" where
  "tail_compressed =
     \<lparr>rows = 3, columns = 2,
      compressed =
        Some \<lparr>outerindex_ptr = [0], innerindex_ptr = [0, 1, 1, 1], values_ptr = [1]\<rparr>,
      dynamic = None, isCompressed = True\<rparr>"

text \<open>
  What the constructors without dimensions build from the single entry \<open>1\<close> at row
  \<open>SIZE_MAX = 2^64 - 1\<close> and column \<open>0\<close>: a matrix with no rows.
\<close>

definition top_dynamic :: "int Matrix" where
  "top_dynamic =
     \<lparr>rows = 0, columns = 1, compressed = None,
      dynamic = Some (COO_state [(18446744073709551615, 0)] [1]), isCompressed = False\<rparr>"

definition top_dynamic_map :: "int Matrix" where
  "top_dynamic_map =
     \<lparr>rows = 0, columns = 1, compressed = None,
      dynamic = Some (COOmap_state [((18446744073709551615, 0), 1)]), isCompressed = False\<rparr>"

text \<open>A Matrix Market file with one entry, \<open>5\<close> at row 1 and column 1 of a \<open>2 \<times> 2\<close> matrix.\<close>

definition market_file :: "int MatrixMarket" where
  "market_file =
     \<lparr>banner = ''%%MatrixMarket matrix coordinate integer general'',
      mm_rows = 2, mm_columns = 2, mm_nnz = 1, mm_entries = [(1, 1, 5)]\<rparr>"

text \<open>\<open>std::abs\<close> on \<open>int\<close>, converted to \<open>double\<close>.\<close>

definition abs_int :: "int \<Rightarrow> real" where
  "abs_int x = real_of_int \<bar>x\<bar>"

section \<open>Resizing\<close>

text \<open>
  Claim C10. For every matrix and all \<open>r\<close>, \<open>c\<close>, \<open>resize(r, c)\<close> sets the dimensions to
  \<open>(r, c)\<close> and leaves the pointers of both formats, the flag and hence every stored entry
  and the entry count as they were. The function has no parameter for the build mode:
  it contains no check at all.
\<close>

theorem resize_sets_dimensions_only:
  fixes m :: "'a Matrix"
  shows "rows (resize r c m) = r \<and> columns (resize r c m) = c \<and>
         compressed (resize r c m) = compressed m \<and> dynamic (resize r c m) = dynamic m \<and>
         isCompressed (resize r c m) = isCompressed m \<and>
         get_num_elements (resize r c m) = get_num_elements m"
  by (simp add: resize_def get_num_elements_def)

section \<open>The compressed format on lines without entries\<close>

text \<open>
  Claim C1 (fails on the code). Element access before and after \<open>compress()\<close>: in the
  matrix \<open>edge_dynamic\<close>, built by the triplet constructor, the coordinate \<open>(1,1)\<close> holds no
  entry and reads as \<open>0\<close>; after \<open>compress()\<close> the same access returns \<open>1\<close>, the value stored
  at \<open>(2,1)\<close>. Matrix-vector product: the column-major \<open>1 \<times> 2\<close> matrix \<open>(1 2)\<close> times \<open>(1, 1)\<close>
  is \<open>(3)\<close> in dynamic state and \<open>(1)\<close> in compressed state, because the compressed product
  visits \<open>rows\<close> lines although the lines are the columns.
\<close>

theorem compress_changes_lookup_and_product:
  "Matrix_from_triplets True rowMajor COO None \<lparr>rows = 0, columns = 0\<rparr> [(0, 0), (2, 1)] [1, 1]
     = Some (Inr edge_dynamic) \<and>
   compress True rowMajor edge_dynamic = Inr edge_compressed \<and>
   operator_call_const True rowMajor edge_dynamic 1 1 = Inr (0, edge_dynamic) \<and>
   operator_call_const True rowMajor edge_compressed 1 1 = Inr (1, edge_compressed) \<and>
   Matrix_from_triplets True columnMajor COO None \<lparr>rows = 0, columns = 0\<rparr> [(0, 0), (0, 1)] [1, 2]
     = Some (Inr wide_dynamic) \<and>
   compress True columnMajor wide_dynamic = Inr wide_compressed \<and>
   operator_times True columnMajor wide_dynamic [1, 1] = Inr [3] \<and>
   operator_times True columnMajor wide_compressed [1, 1] = Inr [1]"
  by code_simp

text \<open>
  Claim C2 (fails on the code). \<open>compress()\<close> then \<open>uncompress()\<close> on \<open>edge_dynamic\<close>, whose
  row 1 is empty, moves the entry of \<open>(2,1)\<close> to \<open>(1,1)\<close>: the producer advances its line by at
  most one per entry. The same happens with the map-based dynamic format.
\<close>

theorem round_trip_moves_entry:
  "compress True rowMajor edge_dynamic = Inr edge_compressed \<and>
   uncompress True rowMajor COO edge_compressed
     = Inr (edge_dynamic\<lparr>dynamic := Some (COO_state [(0, 0), (1, 1)] [1, 1])\<rparr>) \<and>
   Matrix_from_triplets True rowMajor COOmap None \<lparr>rows = 0, columns = 0\<rparr> [(0, 0), (2, 1)] [1, 1]
     = Some (Inr edge_dynamic_map) \<and>
   compress True rowMajor edge_dynamic_map = Inr edge_compressed \<and>
   uncompress True rowMajor COOmap edge_compressed
     = Inr (edge_dynamic_map\<lparr>dynamic := Some (COOmap_state [((0, 0), 1), ((1, 1), 1)])\<rparr>)"
  by code_simp

text \<open>
  Claim C3 (fails on the code). Assignment to an unset coordinate of a compressed matrix.
  Row-major, empty line: in \<open>gap_compressed\<close> the assignment \<open>m(1, 2) = 7\<close> puts the new
  element behind the first element of row 2, so that afterwards \<open>(1,2)\<close> reads as \<open>0\<close>, the
  value \<open>7\<close> is found at \<open>(2,2)\<close> and row 1 shows the old entry of \<open>(2,0)\<close>. Column-major,
  non-empty line: in \<open>flat_compressed\<close> (2 rows, 3 columns) the assignment \<open>m(1, 0) = 7\<close>
  increments the line starts only below index \<open>rows + 1 = 3\<close>, so the last line start stays 3
  while four values are stored.
\<close>

theorem assignment_into_compressed_breaks:
  "Matrix_from_triplets True rowMajor COO (Some (3, 3)) \<lparr>rows = 0, columns = 0\<rparr>
       [(0, 0), (2, 0)] [1, 1] = Some (Inr gap_dynamic) \<and>
   compress True rowMajor gap_dynamic = Inr gap_compressed \<and>
   operator_call_const True rowMajor gap_compressed 1 2 = Inr (0, gap_compressed) \<and>
   assign True rowMajor gap_compressed 1 2 7 = Inr gap_assigned \<and>
   operator_call_const True rowMajor gap_assigned 1 2 = Inr (0, gap_assigned) \<and>
   operator_call_const True rowMajor gap_assigned 2 2 = Inr (7, gap_assigned) \<and>
   operator_call_const True rowMajor gap_assigned 1 0 = Inr (1, gap_assigned) \<and>
   Matrix_from_triplets True columnMajor COO (Some (2, 3)) \<lparr>rows = 0, columns = 0\<rparr>
       [(0, 0), (0, 1), (0, 2)] [1, 2, 3] = Some (Inr flat_dynamic) \<and>
   compress True columnMajor flat_dynamic = Inr flat_compressed \<and>
   assign True columnMajor flat_compressed 1 0 7 = Inr flat_assigned \<and>
   get_num_elements flat_assigned = Inr 4 \<and>
   map_option (last \<circ> innerindex_ptr) (compressed flat_assigned) = Some 3"
  by code_simp

text \<open>
  Claim C5 (fails on the code). Read-only access to a coordinate without entry in a line
  without entries, compressed state. In \<open>hole_compressed\<close> (column-major, column 1 empty)
  the access to \<open>(1,1)\<close> returns \<open>1\<close>, the value stored at \<open>(1,2)\<close>; in \<open>tail_compressed\<close>
  (row-major, rows 1 and 2 empty) the access to \<open>(1,0)\<close> reads the outer-index vector at its
  end. \<open>remove\<close> at the same coordinates returns \<open>false\<close> and changes nothing.
\<close>

theorem lookup_in_empty_line:
  "Matrix_from_triplets True columnMajor COOmap None \<lparr>rows = 0, columns = 0\<rparr>
       [(0, 0), (1, 2)] [1, 1] = Some (Inr hole_dynamic) \<and>
   compress True columnMajor hole_dynamic = Inr hole_compressed \<and>
   operator_call_const True columnMajor hole_dynamic 1 1 = Inr (0, hole_dynamic) \<and>
   operator_call_const True columnMajor hole_compressed 1 1 = Inr (1, hole_compressed) \<and>
   remove True columnMajor hole_compressed 1 1 = Inr (False, hole_compressed) \<and>
   Matrix_from_triplets True rowMajor COO (Some (3, 2)) \<lparr>rows = 0, columns = 0\<rparr> [(0, 0)] [1]
     = Some (Inr tail_dynamic) \<and>
   compress True rowMajor tail_dynamic = Inr tail_compressed \<and>
   operator_call_const True rowMajor tail_compressed 1 0 = Inl OutOfRange \<and>
   remove True rowMajor tail_compressed 1 0 = Inr (False, tail_compressed)"
  by code_simp

section \<open>The two dynamic formats\<close>

text \<open>
  Claim C4 (fails on the code). The same triplets, \<open>(0,0) = 1\<close>, \<open>(2,0) = 3\<close>, \<open>(2,1) = 4\<close>,
  row-major, row 1 empty, given to both dynamic formats: the infinity norm is \<open>7\<close> with the
  map and \<open>4\<close> with the lists, whose loop splits row 2 because its line counter advances
  by one where the row index advances by two.
\<close>

theorem norms_differ_between_backends:
  "COO_from_triplets True False rowMajor \<lparr>rows = 0, columns = 0\<rparr>
       [(0, 0), (2, 0), (2, 1)] [1, 3, 4 :: int]
     = Some (Inr (\<lparr>rows = 3, columns = 2\<rparr>, COO_state [(0, 0), (2, 0), (2, 1)] [1, 3, 4])) \<and>
   COOmap_from_triplets True False rowMajor \<lparr>rows = 0, columns = 0\<rparr>
       [(0, 0), (2, 0), (2, 1)] [1, 3, 4 :: int]
     = Inr (\<lparr>rows = 3, columns = 2\<rparr>, COOmap_state [((0, 0), 1), ((2, 0), 3), ((2, 1), 4)]) \<and>
   COO_norm_dynamic rowMajor Infinity abs_int 3 2 [(0, 0), (2, 0), (2, 1)] [1, 3, 4] = Inr 4 \<and>
   COOmap_norm_dynamic Infinity abs_int 3 2 [((0, 0), 1), ((2, 0), 3), ((2, 1), 4)] = Inr 7"
proof -
  have a: "COO_from_triplets True False rowMajor \<lparr>rows = 0, columns = 0\<rparr>
             [(0, 0), (2, 0), (2, 1)] [1, 3, 4 :: int]
           = Some (Inr (\<lparr>rows = 3, columns = 2\<rparr>, COO_state [(0, 0), (2, 0), (2, 1)] [1, 3, 4]))"
    by code_simp
  have b: "COOmap_from_triplets True False rowMajor \<lparr>rows = 0, columns = 0\<rparr>
             [(0, 0), (2, 0), (2, 1)] [1, 3, 4 :: int]
           = Inr (\<lparr>rows = 3, columns = 2\<rparr>, COOmap_state [((0, 0), 1), ((2, 0), 3), ((2, 1), 4)])"
    by code_simp
  have c: "COO_norm_dynamic rowMajor Infinity abs_int 3 2 [(0, 0), (2, 0), (2, 1)] [1, 3, 4] = Inr 4"
    by (simp add: COO_norm_dynamic_def abs_int_def)
  have d: "COOmap_norm_dynamic Infinity abs_int 3 2 [((0, 0), 1), ((2, 0), 3), ((2, 1), 4)] = Inr 7"
    by (simp add: COOmap_norm_dynamic_def max_element_def abs_int_def numeral_3_eq_3)
  show ?thesis by (intro conjI a b c d)
qed

section \<open>The constructor from a file\<close>

text \<open>
  Claim C6 (fails on the code). The constructor from a file does not write the flag: when
  the storage of the object held a non-zero byte there, \<open>is_compressed()\<close> is true right
  after construction, element access dispatches to the compressed format, whose pointers
  are null, and a \<open>DEBUG\<close> build refuses \<open>compress()\<close>.
\<close>

theorem file_constructor_leaves_flag:
  "Matrix_from_file True columnMajor COO True market_file
     = Some (Inr \<lparr>rows = 2, columns = 2, compressed = None,
                  dynamic = Some (COO_state [(0, 0)] [5]), isCompressed = True\<rparr>) \<and>
   is_compressed \<lparr>rows = 2, columns = 2, compressed = None,
                  dynamic = Some (COO_state [(0, 0)] [5 :: int]), isCompressed = True\<rparr> \<and>
   operator_call_const True columnMajor
       \<lparr>rows = 2, columns = 2, compressed = None,
        dynamic = Some (COO_state [(0, 0)] [5 :: int]), isCompressed = True\<rparr> 0 0
     = Inl NullPointer \<and>
   compress True columnMajor
       \<lparr>rows = 2, columns = 2, compressed = None,
        dynamic = Some (COO_state [(0, 0)] [5 :: int]), isCompressed = True\<rparr>
     = Inl AlreadyCompressed"
  by code_simp

section \<open>Element access in dynamic state\<close>

lemma Comparator_equivalent: "\<not> Comparator S a b \<Longrightarrow> \<not> Comparator S b a \<Longrightarrow> a = b"
  by (cases S) (auto simp: prod_eq_iff split: if_splits)

lemma Comparator_irrefl: "\<not> Comparator S a a"
  by (cases S) auto

lemma COO_find_dynamic_absent:
  "length ps = length vs \<Longrightarrow> (i, j) \<notin> set ps \<Longrightarrow>
   \<exists>k\<le>length ps. COO_find_dynamic S ps vs i j
       = Inr (take k ps @ (i, j) # drop k ps, take k vs @ 0 # drop k vs, k)"
proof (induction ps arbitrary: vs)
  case Nil
  then show ?case by simp
next
  case (Cons p ps)
  then obtain v vs' where vs: "vs = v # vs'" by (cases vs) auto
  from Cons.prems have neq: "\<not> (fst p = i \<and> snd p = j)" by auto
  show ?case
  proof (cases "Comparator S p (i, j)")
    case False
    with neq vs show ?thesis by (intro exI[of _ 0]) simp
  next
    case True
    from Cons.IH[of vs'] Cons.prems vs obtain k where
      k: "k \<le> length ps"
         "COO_find_dynamic S ps vs' i j = Inr (take k ps @ (i, j) # drop k ps, take k vs' @ 0 # drop k vs', k)"
      by auto
    with True neq vs show ?thesis by (intro exI[of _ "Suc k"]) simp
  qed
qed

lemma map_subscript_absent:
  "k \<notin> fst ` set m \<Longrightarrow> \<exists>n\<le>length m. map_subscript S k m = take n m @ (k, 0) # drop n m"
proof (induction m)
  case Nil
  then show ?case by simp
next
  case (Cons e m)
  show ?case
  proof (cases "Comparator S (fst e) k")
    case True
    from Cons obtain n where "n \<le> length m" "map_subscript S k m = take n m @ (k, 0) # drop n m"
      by auto
    with True show ?thesis by (intro exI[of _ "Suc n"]) simp
  next
    case False
    from Cons.prems have "fst e \<noteq> k" by auto
    with False Comparator_equivalent[of S "fst e" k] have "Comparator S k (fst e)" by auto
    with False show ?thesis by (intro exI[of _ 0]) simp
  qed
qed

lemma map_subscript_present: "map_find S k m \<noteq> None \<Longrightarrow> map_subscript S k m = m"
  by (induction m) (auto split: if_splits)

lemma COOmap_find_dynamic_const_same: "snd (COOmap_find_dynamic_const S m i j) = m"
  by (auto simp: COOmap_find_dynamic_const_def Let_def map_subscript_present split: option.splits)

lemma operator_call_const_pure:
  assumes "operator_call_const debug S m i j = Inr (v, m')"
  shows "m' = m"
proof (cases "dynamic m")
  case None
  with assms show ?thesis
    by (auto simp: operator_call_const_def split: if_splits option.splits sum.splits)
next
  case (Some d)
  show ?thesis
  proof (cases d)
    case (COO_state ps vs)
    with Some assms show ?thesis
      by (auto simp: operator_call_const_def split: if_splits option.splits sum.splits)
  next
    case (COOmap_state mp)
    have "m\<lparr>dynamic := Some (COOmap_state mp)\<rparr> = m"
      using Some COOmap_state by simp
    moreover obtain w mp' where w: "COOmap_find_dynamic_const S mp i j = (w, mp')"
      by (cases "COOmap_find_dynamic_const S mp i j")
    moreover from w COOmap_find_dynamic_const_same[of S mp i j] have "mp' = mp" by simp
    ultimately show ?thesis
      using Some COOmap_state assms
      by (auto simp: operator_call_const_def split: if_splits option.splits sum.splits)
  qed
qed

text \<open>
  Claim C9. In dynamic state, with either dynamic format, the mutable access to an
  in-bounds coordinate that holds no entry returns normally; the object differs from the
  one before only in its dynamic state, whose entries are the old ones, in their order,
  with the entry \<open>((i, j), 0)\<close> put in at one position; the entry count grows by exactly
  one. The read-only access, in any state, returns the object unchanged whenever it
  returns.
\<close>

theorem mutable_access_adds_one_entry:
  fixes m :: "'a::zero Matrix"
  shows "(\<not> isCompressed m \<and> dynamic m = Some d \<and> paired d \<and> i < rows m \<and> j < columns m \<and>
          (i, j) \<notin> fst ` set (entries d) \<longrightarrow>
          (\<exists>d' k. operator_call debug S m i j
                     = Inr (m\<lparr>dynamic := Some d'\<rparr>,
                            case d of COO_state ps vs \<Rightarrow> COO_slot k | COOmap_state mp \<Rightarrow> COOmap_slot (i, j)) \<and>
                   paired d' \<and>
                   entries d' = take k (entries d) @ ((i, j), 0) # drop k (entries d) \<and>
                   get_num_elements m = Inr (length (entries d)) \<and>
                   get_num_elements (m\<lparr>dynamic := Some d'\<rparr>) = Inr (length (entries d) + 1))) \<and>
         (\<forall>v m'. operator_call_const debug S m i j = Inr (v, m') \<longrightarrow> m' = m)"
proof (intro conjI impI allI)
  fix v m' assume "operator_call_const debug S m i j = Inr (v, m')"
  then show "m' = m" by (rule operator_call_const_pure)
next
  assume a: "\<not> isCompressed m \<and> dynamic m = Some d \<and> paired d \<and> i < rows m \<and> j < columns m \<and>
          (i, j) \<notin> fst ` set (entries d)"
  show "\<exists>d' k. operator_call debug S m i j
                     = Inr (m\<lparr>dynamic := Some d'\<rparr>,
                            case d of COO_state ps vs \<Rightarrow> COO_slot k | COOmap_state mp \<Rightarrow> COOmap_slot (i, j)) \<and>
                   paired d' \<and>
                   entries d' = take k (entries d) @ ((i, j), 0) # drop k (entries d) \<and>
                   get_num_elements m = Inr (length (entries d)) \<and>
                   get_num_elements (m\<lparr>dynamic := Some d'\<rparr>) = Inr (length (entries d) + 1)"
  proof (cases d)
    case (COO_state ps vs)
    with a have len: "length ps = length vs" and absent: "(i, j) \<notin> set ps"
      by (auto simp: paired_def entries_def set_zip_leftD in_set_zip in_set_conv_nth image_iff)
         (metis fst_conv nth_zip length_zip min.idem nth_mem)
    from COO_find_dynamic_absent[OF len absent, of S] obtain k where
      k: "k \<le> length ps"
         "COO_find_dynamic S ps vs i j = Inr (take k ps @ (i, j) # drop k ps, take k vs @ 0 # drop k vs, k)"
      by auto
    let ?d' = "COO_state (take k ps @ (i, j) # drop k ps) (take k vs @ 0 # drop k vs)"
    have z: "zip (take k ps @ (i, j) # drop k ps) (take k vs @ 0 # drop k vs)
             = take k (zip ps vs) @ ((i, j), 0) # drop k (zip ps vs)"
      using len k(1) by (simp add: take_zip drop_zip)
    show ?thesis
      apply (rule exI[of _ ?d'], rule exI[of _ k])
      using a COO_state k len z
      by (simp add: operator_call_def paired_def entries_def get_num_elements_def
            COO_get_num_elements_dynamic_def)
  next
    case (COOmap_state mp)
    with a have absent: "(i, j) \<notin> fst ` set mp" by (simp add: entries_def)
    from map_subscript_absent[OF absent, of S] obtain n where
      n: "n \<le> length mp" "map_subscript S (i, j) mp = take n mp @ ((i, j), 0) # drop n mp"
      by auto
    show ?thesis
      apply (rule exI[of _ "COOmap_state (map_subscript S (i, j) mp)"], rule exI[of _ n])
      using a COOmap_state n
      by (simp add: operator_call_def paired_def entries_def get_num_elements_def
            COOmap_get_num_elements_dynamic_def COOmap_find_dynamic_def)
  qed
qed

theorem mutable_access_adds_one_entry_witness:
  "\<exists>d' k. operator_call True rowMajor edge_dynamic 1 1
             = Inr (edge_dynamic\<lparr>dynamic := Some d'\<rparr>, COO_slot k) \<and>
          paired d' \<and>
          entries d' = take k [((0, 0), 1), ((2, 1), 1)] @ ((1, 1), 0) # drop k [((0, 0), 1), ((2, 1), 1)] \<and>
          get_num_elements edge_dynamic = Inr 2 \<and>
          get_num_elements (edge_dynamic\<lparr>dynamic := Some d'\<rparr>) = Inr 3"
proof -
  let ?d = "COO_state [(0, 0), (2, 1)] [1, 1 :: int]"
  have h: "\<not> isCompressed edge_dynamic \<and> dynamic edge_dynamic = Some ?d \<and> paired ?d \<and>
           1 < rows edge_dynamic \<and> 1 < columns edge_dynamic \<and> (1, 1) \<notin> fst ` set (entries ?d)"
    by (simp add: edge_dynamic_def paired_def entries_def)
  have e: "entries ?d = [((0, 0), 1), ((2, 1), 1)]"
    by (simp add: entries_def)
  from mutable_access_adds_one_entry [of edge_dynamic ?d 1 1 True rowMajor] h
  have "\<exists>d' k. operator_call True rowMajor edge_dynamic 1 1
             = Inr (edge_dynamic\<lparr>dynamic := Some d'\<rparr>,
                    case ?d of COO_state ps vs \<Rightarrow> COO_slot k | COOmap_state mp \<Rightarrow> COOmap_slot (1, 1)) \<and>
          paired d' \<and>
          entries d' = take k (entries ?d) @ ((1, 1), 0) # drop k (entries ?d) \<and>
          get_num_elements edge_dynamic = Inr (length (entries ?d)) \<and>
          get_num_elements (edge_dynamic\<lparr>dynamic := Some d'\<rparr>) = Inr (length (entries ?d) + 1)"
    by blast
  then show ?thesis
    unfolding e by (simp add: numeral_2_eq_2 numeral_3_eq_3)
qed

section \<open>Correctness of the sort by a permutation\<close>

text \<open>
  For a permutation \<open>p\<close> of the positions of \<open>vec\<close>, \<open>apply_permutation\<close> returns, without
  fault, the vector whose element \<open>k\<close> is \<open>vec[p[k]]\<close>. The inner loop walks the cycle of
  \<open>i\<close> under \<open>p\<close>; it returns because the cycle comes back to \<open>i\<close>.
\<close>

lemma perm_nth_lt: "is_permutation p \<Longrightarrow> x < length p \<Longrightarrow> p ! x < length p"
  unfolding is_permutation_def using nth_mem[of x p] by auto

lemma perm_nth_inj:
  "is_permutation p \<Longrightarrow> x < length p \<Longrightarrow> y < length p \<Longrightarrow> p ! x = p ! y \<Longrightarrow> x = y"
  unfolding is_permutation_def by (simp add: nth_eq_iff_index_eq)

lemma orbit_lt: "is_permutation p \<Longrightarrow> i < length p \<Longrightarrow> ((!) p ^^ t) i < length p"
  by (induction t) (auto simp: perm_nth_lt)

lemma orbit_cancel:
  assumes "is_permutation p" "i < length p" "((!) p ^^ (a + d)) i = ((!) p ^^ a) i"
  shows "((!) p ^^ d) i = i"
  using assms(3)
proof (induction a)
  case 0
  then show ?case by simp
next
  case (Suc a)
  then have "p ! (((!) p ^^ (a + d)) i) = p ! (((!) p ^^ a) i)" by simp
  then have "((!) p ^^ (a + d)) i = ((!) p ^^ a) i"
    using perm_nth_inj[OF assms(1)] orbit_lt[OF assms(1,2)] by blast
  then show ?case by (rule Suc.IH)
qed

lemma orbit_returns:
  assumes "is_permutation p" "i < length p"
  shows "\<exists>k>0. ((!) p ^^ k) i = i"
proof -
  let ?g = "\<lambda>t. ((!) p ^^ t) i"
  have "?g ` {..length p} \<subseteq> {..<length p}"
    using orbit_lt[OF assms] by auto
  then have "card (?g ` {..length p}) \<le> card {..<length p}"
    by (intro card_mono) auto
  then have "card (?g ` {..length p}) < card {..length p}" by simp
  then have "\<not> inj_on ?g {..length p}" by (rule pigeonhole)
  then obtain a b where ab: "a \<noteq> b" "?g a = ?g b" by (auto simp: inj_on_def)
  show ?thesis
  proof (cases "a < b")
    case True
    then have "?g (a + (b - a)) = ?g a" using ab by simp
    from orbit_cancel[OF assms this] True show ?thesis by (intro exI[of _ "b - a"]) simp
  next
    case False
    with ab have "b < a" by simp
    then have "?g (b + (a - b)) = ?g b" using ab by simp
    from orbit_cancel[OF assms this] \<open>b < a\<close> show ?thesis by (intro exI[of _ "a - b"]) simp
  qed
qed

lemma permute_cycle_correct:
  fixes V :: "'b list"
  assumes perm: "is_permutation p" and lV: "length V = length p" and lD: "length D = length p"
    and i: "i < length p"
  shows "\<exists>vec' dn' Orb. permute_cycle p i V (D[i := True]) i (p ! i) = Some (Inr (vec', dn')) \<and>
           length vec' = length p \<and> length dn' = length p \<and> i \<in> Orb \<and>
           (\<forall>x\<in>Orb. x < length p \<and> p ! x \<in> Orb \<and> (\<exists>t. ((!) p ^^ t) x = i)) \<and>
           (\<forall>x<length p. vec' ! x = (if x \<in> Orb then V ! (p ! x) else V ! x)) \<and>
           (\<forall>x<length p. dn' ! x = (D ! x \<or> x \<in> Orb))"
proof -
  define n where "n = length p"
  define orb where "orb t = ((!) p ^^ t) i" for t
  define k where "k = (LEAST k. 0 < k \<and> orb k = i)"
  have ex: "\<exists>k. 0 < k \<and> orb k = i"
    using orbit_returns[OF perm i] by (auto simp: orb_def)
  have k: "0 < k" "orb k = i"
    using LeastI_ex[OF ex] by (auto simp: k_def)
  have kmin: "\<And>t. 0 < t \<Longrightarrow> t < k \<Longrightarrow> orb t \<noteq> i"
    using not_less_Least[of _ "\<lambda>k. 0 < k \<and> orb k = i"] by (auto simp: k_def)
  have orb_lt: "\<And>t. orb t < n"
    using orbit_lt[OF perm i] by (simp add: orb_def n_def)
  have orb_Suc: "\<And>t. orb (Suc t) = p ! orb t" by (simp add: orb_def)
  have orb0: "orb 0 = i" by (simp add: orb_def)
  have orb_distinct: "orb a \<noteq> orb b" if "a < b" "b < k" for a b
  proof
    assume "orb a = orb b"
    then have "((!) p ^^ (a + (b - a))) i = ((!) p ^^ a) i" using that by (simp add: orb_def)
    from orbit_cancel[OF perm i this] have "orb (b - a) = i" by (simp add: orb_def)
    moreover have "0 < b - a" "b - a < k" using that by auto
    ultimately show False using kmin[of "b - a"] by blast
  qed
  have orb_inj: "a = b" if "orb a = orb b" "a < k" "b < k" for a b
    using that orb_distinct[of a b] orb_distinct[of b a] by (cases a b rule: linorder_cases) auto
  define Inv where "Inv t vec dn \<longleftrightarrow>
      length vec = n \<and> length dn = n \<and>
      (\<forall>x<n. vec ! x = (if x \<in> orb ` {..<t} then V ! (p ! x) else if x = orb t then V ! i else V ! x)) \<and>
      (\<forall>x<n. dn ! x = (D ! x \<or> x \<in> orb ` {..t}))" for t vec dn
  have step: "\<exists>vec' dn'. permute_cycle p i vec dn (orb t) (orb (Suc t)) = Some (Inr (vec', dn')) \<and>
                 Inv (k - 1) vec' dn'"
    if "t < k" "Inv t vec dn" for t vec dn
    using that
  proof (induction "k - Suc t" arbitrary: t vec dn)
    case 0
    then have "Suc t = k" by simp
    then have "orb (Suc t) = i" "t = k - 1" using k by auto
    with 0 show ?case by (subst permute_cycle.simps) simp
  next
    case (Suc d)
    then have t: "Suc t < k" by simp
    then have ne: "orb (Suc t) \<noteq> i" using kmin[of "Suc t"] by simp
    let ?prev = "orb t" and ?j = "orb (Suc t)"
    let ?vec = "vec[?prev := vec ! ?j, ?j := vec ! ?prev]"
    let ?dn = "dn[?j := True]"
    from Suc.prems have len: "length vec = n" "length dn = n" by (auto simp: Inv_def)
    have neq: "?prev \<noteq> ?j" using orb_distinct[of t "Suc t"] t by simp
    have jnot: "?j \<notin> orb ` {..<t}"
    proof
      assume "?j \<in> orb ` {..<t}"
      then obtain s where "s < t" "orb s = orb (Suc t)" by auto
      with orb_distinct[of s "Suc t"] t show False by simp
    qed
    have pnot: "?prev \<notin> orb ` {..<t}"
    proof
      assume "?prev \<in> orb ` {..<t}"
      then obtain s where "s < t" "orb s = orb t" by auto
      with orb_distinct[of s t] t show False by simp
    qed
    have vj: "vec ! ?j = V ! ?j"
      using Suc.prems(2) orb_lt[of "Suc t"] jnot neq by (auto simp: Inv_def)
    have vp: "vec ! ?prev = V ! i"
      using Suc.prems(2) orb_lt[of t] pnot by (auto simp: Inv_def)
    have "Inv (Suc t) ?vec ?dn"
      unfolding Inv_def
    proof (intro conjI allI impI)
      show "length ?vec = n" "length ?dn = n" using len by auto
    next
      fix x assume x: "x < n"
      have "orb ` {..<Suc t} = insert ?prev (orb ` {..<t})" by (auto simp: lessThan_Suc)
      then show "?vec ! x = (if x \<in> orb ` {..<Suc t} then V ! (p ! x)
                            else if x = ?j then V ! i else V ! x)"
        using x len neq jnot vj vp Suc.prems(2) orb_lt[of t] orb_lt[of "Suc t"] orb_Suc[of t]
        by (auto simp: Inv_def nth_list_update)
    next
      fix x assume x: "x < n"
      have "orb ` {..Suc t} = insert ?j (orb ` {..t})" by (auto simp: atMost_Suc)
      then show "?dn ! x = (D ! x \<or> x \<in> orb ` {..Suc t})"
        using x len Suc.prems(2) orb_lt[of "Suc t"] by (auto simp: Inv_def nth_list_update)
    qed
    moreover have "d = k - Suc (Suc t)" using Suc.hyps(2) by simp
    ultimately obtain vec' dn' where
      r: "permute_cycle p i ?vec ?dn ?j (orb (Suc (Suc t))) = Some (Inr (vec', dn'))"
         "Inv (k - 1) vec' dn'"
      using Suc.hyps(1)[of "Suc t" ?vec ?dn] t by blast
    have "permute_cycle p i vec dn ?prev ?j = permute_cycle p i ?vec ?dn ?j (p ! ?j)"
      using ne len orb_lt[of t] orb_lt[of "Suc t"]
      by (subst permute_cycle.simps) (auto simp: n_def)
    with r show ?case by (auto simp: orb_Suc)
  qed
  have "Inv 0 V (D[i := True])"
    using lV lD i by (auto simp: Inv_def n_def orb0 nth_list_update)
  from step[OF k(1) this] obtain vec' dn' where
    r: "permute_cycle p i V (D[i := True]) i (p ! i) = Some (Inr (vec', dn'))" "Inv (k - 1) vec' dn'"
    by (auto simp: orb0 orb_Suc)
  define Orb where "Orb = orb ` {..<k}"
  have last: "p ! orb (k - 1) = i" using k orb_Suc[of "k - 1"] by simp
  have Orb1: "i \<in> Orb"
  proof -
    have "orb 0 \<in> orb ` {..<k}" using k(1) by blast
    then show ?thesis by (simp add: Orb_def orb0)
  qed
  have Orb2: "\<forall>x\<in>Orb. x < length p \<and> p ! x \<in> Orb \<and> (\<exists>t. ((!) p ^^ t) x = i)"
  proof
    fix x assume "x \<in> Orb"
    then obtain t where t: "t < k" "x = orb t" by (auto simp: Orb_def)
    have "p ! x \<in> Orb"
    proof (cases "Suc t < k")
      case True
      then have "orb (Suc t) \<in> orb ` {..<k}" by blast
      then show ?thesis using t orb_Suc[of t] by (simp add: Orb_def)
    next
      case False
      with t have "t = k - 1" by simp
      with last t Orb1 show ?thesis by simp
    qed
    moreover have "((!) p ^^ (k - t)) x = i"
    proof -
      have "((!) p ^^ (k - t)) x = ((!) p ^^ (k - t + t)) i"
        unfolding t(2) orb_def funpow_add by simp
      also have "\<dots> = orb k" using t by (simp add: orb_def)
      finally show ?thesis using k by simp
    qed
    ultimately show "x < length p \<and> p ! x \<in> Orb \<and> (\<exists>t. ((!) p ^^ t) x = i)"
      using orb_lt[of t] t by (auto simp: n_def)
  qed
  have split: "orb ` {..<k} = insert (orb (k - 1)) (orb ` {..<k - 1})"
    using k(1) by (cases k) (auto simp: lessThan_Suc)
  have split': "orb ` {..k - 1} = orb ` {..<k}"
    using k(1) by (cases k) (auto simp: lessThan_Suc_atMost)
  have Orb3: "\<forall>x<length p. vec' ! x = (if x \<in> Orb then V ! (p ! x) else V ! x)"
    using r(2) last unfolding Inv_def Orb_def split n_def by auto
  have Orb4: "\<forall>x<length p. dn' ! x = (D ! x \<or> x \<in> Orb)"
    using r(2) unfolding Inv_def Orb_def split' n_def by auto
  from r(1) r(2) Orb1 Orb2 Orb3 Orb4 show ?thesis
    unfolding Inv_def n_def by blast
qed

lemma closed_under_orbit:
  assumes "is_permutation p" "\<forall>x<length p. dn ! x \<longrightarrow> dn ! (p ! x)" "x < length p" "dn ! x"
  shows "dn ! (((!) p ^^ t) x)"
proof (induction t)
  case 0
  from assms(4) show ?case by simp
next
  case (Suc t)
  with assms(2) orbit_lt[OF assms(1,3), of t] show ?case by simp
qed

lemma permute_loop_correct:
  fixes V0 :: "'b list"
  assumes perm: "is_permutation p" and lV: "length V0 = length p"
  shows "length vec = length p \<Longrightarrow> length dn = length p \<Longrightarrow> set is \<subseteq> {..<length p} \<Longrightarrow>
         (\<forall>x<length p. vec ! x = (if dn ! x then V0 ! (p ! x) else V0 ! x)) \<Longrightarrow>
         (\<forall>x<length p. dn ! x \<longrightarrow> dn ! (p ! x)) \<Longrightarrow>
         (\<forall>x<length p. x \<notin> set is \<longrightarrow> dn ! x) \<Longrightarrow>
         permute_loop p is vec dn = Some (Inr (map (\<lambda>x. V0 ! (p ! x)) [0..<length p]))"
proof (induction "is" arbitrary: vec dn)
  case Nil
  then have "vec = map (\<lambda>x. V0 ! (p ! x)) [0..<length p]"
    by (intro nth_equalityI) auto
  then show ?case by simp
next
  case (Cons i "is")
  from Cons.prems(3) have i: "i < length p" and sub: "set is \<subseteq> {..<length p}" by auto
  show ?case
  proof (cases "dn ! i")
    case True
    have "\<forall>x<length p. x \<notin> set is \<longrightarrow> dn ! x"
      using Cons.prems(6) True by auto
    from Cons.IH[OF Cons.prems(1,2) sub Cons.prems(4,5) this] True i Cons.prems(2)
    show ?thesis by simp
  next
    case False
    from permute_cycle_correct[OF perm Cons.prems(1,2) i] obtain vec' dn' Orb where
      r: "permute_cycle p i vec (dn[i := True]) i (p ! i) = Some (Inr (vec', dn'))"
      and len: "length vec' = length p" "length dn' = length p"
      and iO: "i \<in> Orb"
      and Orb: "\<forall>x\<in>Orb. x < length p \<and> p ! x \<in> Orb \<and> (\<exists>t. ((!) p ^^ t) x = i)"
      and vec': "\<forall>x<length p. vec' ! x = (if x \<in> Orb then vec ! (p ! x) else vec ! x)"
      and dn': "\<forall>x<length p. dn' ! x = (dn ! x \<or> x \<in> Orb)"
      by blast
    have fresh: "\<not> dn ! x" if "x \<in> Orb" for x
    proof
      assume d: "dn ! x"
      from Orb that obtain t where x: "x < length p" and t: "((!) p ^^ t) x = i" by blast
      from closed_under_orbit[OF perm Cons.prems(5) x d, of t] t False show False by simp
    qed
    have a: "\<forall>x<length p. vec' ! x = (if dn' ! x then V0 ! (p ! x) else V0 ! x)"
    proof (intro allI impI)
      fix x assume x: "x < length p"
      show "vec' ! x = (if dn' ! x then V0 ! (p ! x) else V0 ! x)"
      proof (cases "x \<in> Orb")
        case True
        with Orb have px: "p ! x \<in> Orb" "p ! x < length p" by auto
        with fresh have "\<not> dn ! (p ! x)" by simp
        with Cons.prems(4) px have "vec ! (p ! x) = V0 ! (p ! x)" by simp
        with True vec' dn' x show ?thesis by simp
      next
        case False
        with vec' dn' x Cons.prems(4) show ?thesis by simp
      qed
    qed
    have b: "\<forall>x<length p. dn' ! x \<longrightarrow> dn' ! (p ! x)"
      using dn' Orb Cons.prems(5) perm_nth_lt[OF perm] by auto
    have c: "\<forall>x<length p. x \<notin> set is \<longrightarrow> dn' ! x"
      using dn' iO Cons.prems(6) by auto
    from Cons.IH[OF len sub a b c] r False i Cons.prems(2)
    show ?thesis by simp
  qed
qed

lemma apply_permutation_correct:
  fixes V :: "'b list"
  assumes "is_permutation p" "length V = length p"
  shows "apply_permutation V p = Some (Inr (map ((!) V) p))"
proof -
  have "permute_loop p [0..<length p] V (replicate (length p) False)
        = Some (Inr (map (\<lambda>x. V ! (p ! x)) [0..<length p]))"
    using assms by (intro permute_loop_correct) auto
  moreover have "map (\<lambda>x. V ! (p ! x)) [0..<length p] = map ((!) V) p"
    by (intro nth_equalityI) auto
  ultimately show ?thesis using assms(2) by (simp add: apply_permutation_def)
qed

lemma Comparator_key: "Comparator S a b \<longleftrightarrow> key S a < key S b"
  by (cases S) (auto simp: key_def less_prod_def prod_eq_iff)

lemma inj_key: "inj (key S)"
  by (cases S) (auto simp: key_def inj_on_def prod_eq_iff)

lemma insert_sorted_insort:
  "insert_sorted (\<lambda>i j. Comparator S (vec ! i) (vec ! j)) x ys
   = insort_key (\<lambda>i. key S (vec ! i)) x ys"
  by (induction ys) (auto simp: Comparator_key)

lemma sort_permutation_sort_key:
  "sort_permutation S vec = sort_key (\<lambda>i. key S (vec ! i)) [0..<length vec]"
proof -
  have "foldr (insert_sorted (\<lambda>i j. Comparator S (vec ! i) (vec ! j))) xs []
        = foldr (insort_key (\<lambda>i. key S (vec ! i))) xs []" for xs
    by (induction xs) (simp_all add: insert_sorted_insort)
  then show ?thesis by (simp add: sort_permutation_def std_sort_def sort_key_def)
qed

lemma sort_permutation_is_permutation: "is_permutation (sort_permutation S vec)"
  by (simp add: sort_permutation_sort_key is_permutation_def atLeast0LessThan)

lemma length_sort_permutation: "length (sort_permutation S vec) = length vec"
  by (simp add: sort_permutation_sort_key)

lemma sorted_by_permutation:
  "sorted (map (key S) (map ((!) vec) (sort_permutation S vec)))"
  using sorted_sort_key[of "\<lambda>i. key S (vec ! i)" "[0..<length vec]"]
  by (simp add: sort_permutation_sort_key comp_def)

lemma set_by_permutation:
  "set (map ((!) vec) (sort_permutation S vec)) = set vec"
proof -
  have "set (sort_permutation S vec) = {..<length vec}"
    by (simp add: sort_permutation_sort_key atLeast0LessThan)
  then have "set (map ((!) vec) (sort_permutation S vec)) = (!) vec ` {..<length vec}" by simp
  also have "\<dots> = set vec" by (auto simp: set_conv_nth)
  finally show ?thesis .
qed

lemma distinct_by_permutation:
  "distinct (map ((!) vec) (sort_permutation S vec)) \<longleftrightarrow> distinct vec"
proof -
  have "set (sort_permutation S vec) = {..<length vec}" "distinct (sort_permutation S vec)"
    by (simp_all add: sort_permutation_sort_key atLeast0LessThan)
  then have "distinct (map ((!) vec) (sort_permutation S vec)) \<longleftrightarrow> inj_on ((!) vec) {..<length vec}"
    by (simp add: distinct_map)
  also have "\<dots> \<longleftrightarrow> distinct vec"
    by (auto simp: distinct_conv_nth inj_on_def)
  finally show ?thesis .
qed

section \<open>The constructors from triplets and from a map\<close>

lemma Comparator_trans: "Comparator S a b \<Longrightarrow> Comparator S b c \<Longrightarrow> Comparator S a c"
  by (simp add: Comparator_key)

lemma COO_build_sorted:
  assumes "length indexes = length vals"
  shows "COO_build debug bounds dup grow S dims indexes vals =
           (case COO_fill debug bounds dup grow dims None
                   (rev (map ((!) indexes) (sort_permutation S indexes)))
                   (rev (map ((!) vals) (sort_permutation S indexes))) (0, 0, [], []) of
              Inl e \<Rightarrow> Some (Inl e)
            | Inr (mr, mc, il, vl) \<Rightarrow>
               Some (Inr (if grow then resize (size_t_increment mr) (size_t_increment mc) dims else dims, COO_state il vl)))"
proof -
  let ?p = "sort_permutation S indexes"
  have p: "is_permutation ?p" by (rule sort_permutation_is_permutation)
  have "apply_permutation indexes ?p = Some (Inr (map ((!) indexes) ?p))"
    by (rule apply_permutation_correct[OF p]) (simp add: length_sort_permutation)
  moreover have "apply_permutation vals ?p = Some (Inr (map ((!) vals) ?p))"
    by (rule apply_permutation_correct[OF p]) (simp add: length_sort_permutation assms)
  ultimately show ?thesis by (simp add: COO_build_def Let_def)
qed

lemma Max_insert_max:
  fixes m :: nat
  assumes "finite A"
  shows "Max (insert (max m a) A) = Max (insert m (insert a A))"
proof (cases "A = {}")
  case True
  then show ?thesis by (simp add: max.commute)
next
  case False
  with assms show ?thesis by (simp add: max.assoc)
qed

lemma COO_fill_ok:
  "length ps = length vs \<Longrightarrow>
   (debug \<and> bounds \<longrightarrow> (\<forall>p\<in>set ps. fst p < rows dims \<and> snd p < columns dims)) \<Longrightarrow>
   (debug \<and> dup \<longrightarrow> distinct ps \<and> prev \<notin> Some ` set ps) \<Longrightarrow>
   COO_fill debug bounds dup grow dims prev ps vs (mr, mc, il, vl)
     = Inr (if grow then Max (insert mr (fst ` set ps)) else mr,
            if grow then Max (insert mc (snd ` set ps)) else mc,
            rev ps @ il, rev vs @ vl)"
proof (induction ps arbitrary: vs prev mr mc il vl)
  case Nil
  then show ?case by simp
next
  case (Cons p ps)
  then obtain v vs' where vs: "vs = v # vs'" by (cases vs) auto
  have m1: "Max (insert (max mr (fst p)) (fst ` set ps)) = Max (insert mr (fst ` set (p # ps)))"
    using Max_insert_max[of "fst ` set ps" mr "fst p"] by simp
  have m2: "Max (insert (max mc (snd p)) (snd ` set ps)) = Max (insert mc (snd ` set (p # ps)))"
    using Max_insert_max[of "snd ` set ps" mc "snd p"] by simp
  have "COO_fill debug bounds dup grow dims (Some p) ps vs'
          (if grow then max mr (fst p) else mr, if grow then max mc (snd p) else mc, p # il, v # vl)
        = Inr (if grow then Max (insert (if grow then max mr (fst p) else mr) (fst ` set ps))
                 else (if grow then max mr (fst p) else mr),
               if grow then Max (insert (if grow then max mc (snd p) else mc) (snd ` set ps))
                 else (if grow then max mc (snd p) else mc),
               rev ps @ p # il, rev vs' @ v # vl)"
    using Cons.prems vs by (intro Cons.IH) auto
  moreover have "\<not> (debug \<and> bounds \<and> \<not> (fst p < rows dims \<and> snd p < columns dims))"
    using Cons.prems(2) by auto
  moreover have "\<not> (debug \<and> dup \<and> prev = Some p)"
    using Cons.prems(3) by auto
  ultimately show ?case
    using m1 m2 by (simp add: vs)
qed

lemma sorted_duplicate_at_head:
  assumes "sorted (rev (map f (p # ps)))" "inj f" "p \<in> set ps"
  shows "ps \<noteq> [] \<and> hd ps = p"
proof -
  from assms(3) obtain q qs where ps: "ps = q # qs" by (cases ps) auto
  from assms(1) have "f q \<le> f p" by (auto simp: ps sorted_append)
  moreover from assms(1) assms(3) have "f p \<le> f q" by (auto simp: ps sorted_append)
  ultimately have "f q = f p" by simp
  with assms(2) have "q = p" by (simp add: inj_eq)
  with ps show ?thesis by simp
qed

lemma COO_fill_duplicate:
  "length ps = length vs \<Longrightarrow> inj f \<Longrightarrow>
   (\<not> distinct ps \<and> sorted (rev (map f ps))) \<or> (ps \<noteq> [] \<and> prev = Some (hd ps)) \<Longrightarrow>
   \<exists>e. COO_fill True bounds True grow dims prev ps vs acc = Inl e \<and>
       ((bounds \<longrightarrow> (\<forall>p\<in>set ps. fst p < rows dims \<and> snd p < columns dims)) \<longrightarrow> e = Redefinition)"
proof (induction ps arbitrary: vs prev acc)
  case Nil
  then show ?case by simp
next
  case (Cons p ps)
  then obtain v vs' where vs: "vs = v # vs'" by (cases vs) auto
  obtain mr mc il vl where acc: "acc = (mr, mc, il, vl)" by (cases acc)
  show ?case
  proof (cases "bounds \<and> \<not> (fst p < rows dims \<and> snd p < columns dims)")
    case True
    then show ?thesis by (auto simp: vs acc)
  next
    case inb: False
    show ?thesis
    proof (cases "prev = Some p")
      case True
      with inb show ?thesis by (auto simp: vs acc)
    next
      case False
      with Cons.prems(3) have nd: "\<not> distinct (p # ps)" and srt: "sorted (rev (map f (p # ps)))"
        by auto
      have next_prem: "(\<not> distinct ps \<and> sorted (rev (map f ps))) \<or> (ps \<noteq> [] \<and> Some p = Some (hd ps))"
      proof (cases "p \<in> set ps")
        case True
        from sorted_duplicate_at_head[OF srt Cons.prems(2) True] show ?thesis by simp
      next
        case False
        with nd srt show ?thesis by (auto simp: sorted_append)
      qed
      have len: "length ps = length vs'" using Cons.prems(1) vs by simp
      from Cons.IH[OF len Cons.prems(2) next_prem,
          where acc = "(if grow then max mr (fst p) else mr, if grow then max mc (snd p) else mc,
                        p # il, v # vl)"]
      obtain e where e:
        "COO_fill True bounds True grow dims (Some p) ps vs'
           (if grow then max mr (fst p) else mr, if grow then max mc (snd p) else mc, p # il, v # vl) = Inl e"
        "(bounds \<longrightarrow> (\<forall>p\<in>set ps. fst p < rows dims \<and> snd p < columns dims)) \<longrightarrow> e = Redefinition"
        by auto
      with inb False show ?thesis by (auto simp: vs acc)
    qed
  qed
qed


lemma map_find_subscript_same: "map_find S k (map_subscript S k m) \<noteq> None"
  by (induction m) (auto simp: Comparator_irrefl)

lemma map_find_store: "(map_find S q (map_store S k v m) = None) = (map_find S q m = None)"
  by (induction m) auto

lemma map_find_subscript_other:
  "map_find S q m \<noteq> None \<Longrightarrow> map_find S q (map_subscript S k m) \<noteq> None"
proof (induction m)
  case Nil
  then show ?case by simp
next
  case (Cons e m)
  show ?case
  proof (cases "Comparator S (fst e) k")
    case True
    with Cons show ?thesis by (auto split: if_splits)
  next
    case nlt: False
    show ?thesis
    proof (cases "Comparator S k (fst e)")
      case False
      with nlt Cons.prems show ?thesis by simp
    next
      case True
      have "Comparator S k q"
      proof (cases "Comparator S (fst e) q")
        case True
        from Comparator_trans[OF \<open>Comparator S k (fst e)\<close> True] show ?thesis .
      next
        case False
        with Cons.prems have "\<not> Comparator S q (fst e)" by (auto split: if_splits)
        with False have "fst e = q" by (rule Comparator_equivalent)
        with True show ?thesis by simp
      qed
      with nlt True Cons.prems show ?thesis by simp
    qed
  qed
qed

lemma map_find_assign_same: "map_find S k (map_assign S k v m) \<noteq> None"
  by (simp add: map_assign_def map_find_store map_find_subscript_same)

lemma map_find_assign_other:
  "map_find S q m \<noteq> None \<Longrightarrow> map_find S q (map_assign S k v m) \<noteq> None"
  by (simp add: map_assign_def map_find_store map_find_subscript_other)

lemma map_find_subscript_absent:
  "q \<noteq> k \<Longrightarrow> map_find S q m = None \<Longrightarrow> map_find S q (map_subscript S k m) = None"
proof (induction m)
  case Nil
  then show ?case using Comparator_equivalent[of S k q] by auto
next
  case (Cons e m)
  then show ?case using Comparator_equivalent[of S k q] by (auto split: if_splits)
qed

lemma map_find_assign_absent:
  "q \<noteq> k \<Longrightarrow> map_find S q m = None \<Longrightarrow> map_find S q (map_assign S k v m) = None"
  by (simp add: map_assign_def map_find_store map_find_subscript_absent)

lemma COOmap_fill_ok:
  "length ps \<le> length vs \<Longrightarrow>
   (debug \<and> B \<longrightarrow> (\<forall>p\<in>set ps. fst p < rows dims \<and> snd p < columns dims)) \<Longrightarrow>
   (debug \<longrightarrow> distinct ps \<and> (\<forall>p\<in>set ps. map_find S p m = None)) \<Longrightarrow>
   \<exists>m'. COOmap_fill debug B S dims ps vs (mr, mc, m)
     = Inr (if B then mr else Max (insert mr (fst ` set ps)),
            if B then mc else Max (insert mc (snd ` set ps)), m')"
proof (induction ps arbitrary: vs mr mc m)
  case Nil
  then show ?case by simp
next
  case (Cons p ps)
  then obtain v vs' where vs: "vs = v # vs'" by (cases vs) auto
  have m1: "Max (insert (max mr (fst p)) (fst ` set ps)) = Max (insert mr (fst ` set (p # ps)))"
    using Max_insert_max[of "fst ` set ps" mr "fst p"] by simp
  have m2: "Max (insert (max mc (snd p)) (snd ` set ps)) = Max (insert mc (snd ` set (p # ps)))"
    using Max_insert_max[of "snd ` set ps" mc "snd p"] by simp
  have absent: "debug \<longrightarrow> distinct ps \<and> (\<forall>q\<in>set ps. map_find S q (map_assign S p v m) = None)"
    using Cons.prems(3) by (auto intro!: map_find_assign_absent)
  have "\<exists>m'. COOmap_fill debug B S dims ps vs'
          (if B then mr else max mr (fst p), if B then mc else max mc (snd p), map_assign S p v m)
        = Inr (if B then (if B then mr else max mr (fst p))
                 else Max (insert (if B then mr else max mr (fst p)) (fst ` set ps)),
               if B then (if B then mc else max mc (snd p))
                 else Max (insert (if B then mc else max mc (snd p)) (snd ` set ps)), m')"
    using Cons.prems(1,2) vs absent by (intro Cons.IH) auto
  moreover have "\<not> (debug \<and> B \<and> \<not> (fst p < rows dims \<and> snd p < columns dims))"
    using Cons.prems(2) by auto
  moreover have "\<not> (debug \<and> map_find S p m \<noteq> None)"
    using Cons.prems(3) by auto
  ultimately show ?case
    using m1 m2 by (cases B) (simp_all add: vs)
qed

lemma COOmap_fill_map_ok:
  "\<exists>m'. COOmap_fill_map debug False S dims inp (mr, mc, m)
     = Inr (Max (insert mr (fst ` fst ` set inp)), Max (insert mc (snd ` fst ` set inp)), m')"
proof (induction inp arbitrary: mr mc m)
  case Nil
  then show ?case by simp
next
  case (Cons e inp)
  have m1: "Max (insert (max mr (fst (fst e))) (fst ` fst ` set inp))
            = Max (insert mr (fst ` fst ` set (e # inp)))"
    using Max_insert_max[of "fst ` fst ` set inp" mr "fst (fst e)"] by simp
  have m2: "Max (insert (max mc (snd (fst e))) (snd ` fst ` set inp))
            = Max (insert mc (snd ` fst ` set (e # inp)))"
    using Max_insert_max[of "snd ` fst ` set inp" mc "snd (fst e)"] by simp
  from Cons[of "max mr (fst (fst e))" "max mc (snd (fst e))" "map_assign S (fst e) (snd e) m"]
  show ?case using m1 m2 by simp
qed

lemma COOmap_fill_duplicate:
  "\<not> distinct ps \<or> (\<exists>p\<in>set ps. map_find S p m \<noteq> None) \<Longrightarrow>
   \<exists>e. COOmap_fill True B S dims ps vs (mr, mc, m) = Inl e \<and>
       (length ps \<le> length vs \<and> (B \<longrightarrow> (\<forall>p\<in>set ps. fst p < rows dims \<and> snd p < columns dims))
        \<longrightarrow> e = Redefinition)"
proof (induction ps arbitrary: vs mr mc m)
  case Nil
  then show ?case by simp
next
  case (Cons p ps)
  note prems = Cons.prems and IH = Cons.IH
  show ?case
  proof (cases "B \<and> \<not> (fst p < rows dims \<and> snd p < columns dims)")
    case True
    then show ?thesis by auto
  next
    case inb: False
    show ?thesis
    proof (cases "map_find S p m \<noteq> None")
      case True
      with inb show ?thesis by auto
    next
      case absent: False
      show ?thesis
      proof (cases vs)
        case Nil
        with inb absent show ?thesis by auto
      next
        case (Cons v vs')
        have next_prem: "\<not> distinct ps \<or> (\<exists>q\<in>set ps. map_find S q (map_assign S p v m) \<noteq> None)"
        proof (cases "p \<in> set ps")
          case True
          then show ?thesis using map_find_assign_same[of S p v m] by blast
        next
          case False
          show ?thesis
          proof (cases "distinct ps")
            case True
            with False have "distinct (p # ps)" by simp
            with prems have "\<exists>q\<in>set (p # ps). map_find S q m \<noteq> None" by blast
            then obtain q where q: "q \<in> set (p # ps)" "map_find S q m \<noteq> None"
              by blast
            with absent have "q \<noteq> p" by auto
            with q have "q \<in> set ps" "map_find S q m \<noteq> None" by auto
            with map_find_assign_other[of S q m p v] show ?thesis by blast
          next
            case False
            then show ?thesis by simp
          qed
        qed
        from IH[OF next_prem, of vs' "if B then mr else max mr (fst p)"
                       "if B then mc else max mc (snd p)"]
        obtain e where
          "COOmap_fill True B S dims ps vs'
             (if B then mr else max mr (fst p), if B then mc else max mc (snd p),
              map_assign S p v m) = Inl e"
          "length ps \<le> length vs' \<and> (B \<longrightarrow> (\<forall>p\<in>set ps. fst p < rows dims \<and> snd p < columns dims))
             \<longrightarrow> e = Redefinition"
          by auto
        with inb absent Cons show ?thesis by auto
      qed
    qed
  qed
qed

lemma triplets_with_duplicate:
  fixes vals :: "'a::zero list"
  assumes dup: "\<not> distinct indexes"
  shows "\<exists>e. Matrix_from_triplets True S D given junk indexes vals = Some (Inl e) \<and>
             (length indexes = length vals \<and>
              (\<forall>p\<in>set indexes. case given of None \<Rightarrow> True | Some (r, c) \<Rightarrow> fst p < r \<and> snd p < c)
              \<longrightarrow> e = Redefinition)"
proof (cases "length indexes = length vals")
  case False
  then show ?thesis
    by (cases D)
       (auto simp: Matrix_from_triplets_def COO_from_triplets_def COOmap_from_triplets_def)
next
  case len: True
  define dims where "dims = (case given of None \<Rightarrow> junk | Some (r, c) \<Rightarrow> \<lparr>rows = r, columns = c\<rparr>)"
  define B where "B = (given \<noteq> None)"
  have inb: "(B \<longrightarrow> (\<forall>p\<in>set indexes. fst p < rows dims \<and> snd p < columns dims))"
    if "\<forall>p\<in>set indexes. case given of None \<Rightarrow> True | Some (r, c) \<Rightarrow> fst p < r \<and> snd p < c"
    using that by (auto simp: B_def dims_def split: option.splits)
  show ?thesis
  proof (cases D)
    case COO
    let ?p = "sort_permutation S indexes"
    let ?T = "map ((!) indexes) ?p" and ?U = "map ((!) vals) ?p"
    have "\<not> distinct (rev ?T)" using dup distinct_by_permutation[of indexes S] by simp
    moreover have "sorted (rev (map (key S) (rev ?T)))"
      using sorted_by_permutation[of S indexes] by (simp add: rev_map)
    ultimately obtain e where e:
      "COO_fill True B True (\<not> B) dims None (rev ?T) (rev ?U) (0, 0, [], []) = Inl e"
      "(B \<longrightarrow> (\<forall>p\<in>set (rev ?T). fst p < rows dims \<and> snd p < columns dims)) \<longrightarrow> e = Redefinition"
      using COO_fill_duplicate[of "rev ?T" "rev ?U" "key S" None B "\<not> B" dims "(0, 0, [], [])"]
        inj_key[of S] by (auto simp: length_sort_permutation)
    have eqset: "set (rev ?T) = set indexes" using set_by_permutation[of indexes S] by simp
    from e(2) have e2: "(B \<longrightarrow> (\<forall>p\<in>set indexes. fst p < rows dims \<and> snd p < columns dims))
       \<longrightarrow> e = Redefinition" unfolding eqset .
    have "(\<forall>p\<in>set indexes. case given of None \<Rightarrow> True | Some (r, c) \<Rightarrow> fst p < r \<and> snd p < c)
       \<longrightarrow> e = Redefinition"
    proof
      assume "\<forall>p\<in>set indexes. case given of None \<Rightarrow> True | Some (r, c) \<Rightarrow> fst p < r \<and> snd p < c"
      from inb[OF this] e2 show "e = Redefinition" by simp
    qed
    with e(1) len COO show ?thesis
      by (simp add: Matrix_from_triplets_def COO_from_triplets_def COO_build_sorted
            B_def dims_def Let_def)
  next
    case COOmap
    from COOmap_fill_duplicate[of indexes S "[]" B dims vals 0 0] dup
    obtain e where e:
      "COOmap_fill True B S dims indexes vals (0, 0, []) = Inl e"
      "length indexes \<le> length vals \<and> (B \<longrightarrow> (\<forall>p\<in>set indexes. fst p < rows dims \<and> snd p < columns dims))
        \<longrightarrow> e = Redefinition"
      by auto
    have "(\<forall>p\<in>set indexes. case given of None \<Rightarrow> True | Some (r, c) \<Rightarrow> fst p < r \<and> snd p < c)
       \<longrightarrow> e = Redefinition"
    proof
      assume "\<forall>p\<in>set indexes. case given of None \<Rightarrow> True | Some (r, c) \<Rightarrow> fst p < r \<and> snd p < c"
      from inb[OF this] e(2) len show "e = Redefinition" by simp
    qed
    with e(1) len COOmap show ?thesis
      by (simp add: Matrix_from_triplets_def COOmap_from_triplets_def B_def dims_def Let_def)
  qed
qed


lemma triplets_dimensions:
  fixes vals :: "'a::zero list"
  assumes a: "indexes \<noteq> [] \<and> length indexes = length vals \<and> (debug \<longrightarrow> distinct indexes)"
  shows "\<exists>m. Matrix_from_triplets debug S D None junk indexes vals = Some (Inr m) \<and>
           rows m = size_t_increment (Max (fst ` set indexes)) \<and>
           columns m = size_t_increment (Max (snd ` set indexes))"
proof (cases D)
  case COO
  let ?p = "sort_permutation S indexes"
  let ?T = "map ((!) indexes) ?p" and ?U = "map ((!) vals) ?p"
  have setT: "set (rev ?T) = set indexes"
    using set_by_permutation[of indexes S] by simp
  have "COO_fill debug False True True junk None (rev ?T) (rev ?U) (0, 0, [], [])
        = Inr (if True then Max (insert 0 (fst ` set (rev ?T))) else 0,
               if True then Max (insert 0 (snd ` set (rev ?T))) else 0,
               rev (rev ?T) @ [], rev (rev ?U) @ [])"
    using a distinct_by_permutation[of indexes S]
    by (intro COO_fill_ok) (auto simp: length_sort_permutation)
  then have "COO_fill debug False True True junk None (rev ?T) (rev ?U) (0, 0, [], [])
        = Inr (Max (fst ` set indexes), Max (snd ` set indexes), ?T, ?U)"
    using a unfolding setT by simp
  with a COO show ?thesis
    by (simp add: Matrix_from_triplets_def COO_from_triplets_def COO_build_sorted
          Matrix_of_dynamic_def resize_def)
next
  case COOmap
  from COOmap_fill_ok[of indexes vals debug False junk S "[]" 0 0] a
  obtain m' where
    "COOmap_fill debug False S junk indexes vals (0, 0, [])
      = Inr (Max (insert 0 (fst ` set indexes)), Max (insert 0 (snd ` set indexes)), m')"
    by auto
  with a COOmap show ?thesis
    by (simp add: Matrix_from_triplets_def COOmap_from_triplets_def
          Matrix_of_dynamic_def resize_def)
qed

lemma map_dimensions:
  fixes inp :: "(index \<times> 'a::zero) list"
  assumes a: "inp \<noteq> []"
  shows "\<exists>m. Matrix_from_map debug S D None junk inp = Some (Inr m) \<and>
           rows m = size_t_increment (Max (fst ` fst ` set inp)) \<and>
           columns m = size_t_increment (Max (snd ` fst ` set inp))"
proof (cases D)
  case COO
  let ?p = "sort_permutation S (map fst inp)"
  let ?T = "map ((!) (map fst inp)) ?p" and ?U = "map ((!) (map snd inp)) ?p"
  have setT: "set (rev ?T) = fst ` set inp"
    using set_by_permutation[of "map fst inp" S] by simp
  have "COO_fill debug False False True junk None (rev ?T) (rev ?U) (0, 0, [], [])
        = Inr (if True then Max (insert 0 (fst ` set (rev ?T))) else 0,
               if True then Max (insert 0 (snd ` set (rev ?T))) else 0,
               rev (rev ?T) @ [], rev (rev ?U) @ [])"
    by (intro COO_fill_ok) (auto simp: length_sort_permutation)
  then have "COO_fill debug False False True junk None (rev ?T) (rev ?U) (0, 0, [], [])
        = Inr (Max (fst ` fst ` set inp), Max (snd ` fst ` set inp), ?T, ?U)"
    using a unfolding setT by simp
  with a COO show ?thesis
    by (simp add: Matrix_from_map_def COO_from_map_def COO_build_sorted
          Matrix_of_dynamic_def resize_def)
next
  case COOmap
  from COOmap_fill_map_ok[of debug S junk inp 0 0 "[]"]
  obtain m' where
    "COOmap_fill_map debug False S junk inp (0, 0, [])
      = Inr (Max (insert 0 (fst ` fst ` set inp)), Max (insert 0 (snd ` fst ` set inp)), m')"
    by auto
  with a COOmap show ?thesis
    by (simp add: Matrix_from_map_def COOmap_from_map_def Matrix_of_dynamic_def resize_def)
qed


text \<open>
  Claim C8, amended. Dimensions not supplied, non-empty input. Triplets (two sequences of
  the same length): whenever the constructor returns a matrix, in either build and with
  either dynamic format, its number of rows is the largest row index plus one, reduced
  modulo \<open>2^64\<close> as the addition on \<open>size_t\<close> does; so it is the largest row index plus one
  whenever that index is below \<open>SIZE_MAX = 2^64 - 1\<close>. The same holds of the columns. The
  constructor does return a matrix unless the build is \<open>DEBUG\<close> and a coordinate is
  repeated. Map: the constructor returns a matrix with these dimensions.
\<close>

theorem inferred_dimensions:
  fixes vals :: "'a::zero list" and inp :: "(index \<times> 'a) list"
  shows
  "(indexes \<noteq> [] \<and> length indexes = length vals \<longrightarrow>
      (\<forall>m. Matrix_from_triplets debug S D None junk indexes vals = Some (Inr m) \<longrightarrow>
           rows m = (Max (fst ` set indexes) + 1) mod 2 ^ 64 \<and>
           columns m = (Max (snd ` set indexes) + 1) mod 2 ^ 64 \<and>
           (Max (fst ` set indexes) < 2 ^ 64 - 1 \<longrightarrow> rows m = Max (fst ` set indexes) + 1) \<and>
           (Max (snd ` set indexes) < 2 ^ 64 - 1 \<longrightarrow> columns m = Max (snd ` set indexes) + 1)) \<and>
      ((debug \<longrightarrow> distinct indexes) \<longrightarrow>
         (\<exists>m. Matrix_from_triplets debug S D None junk indexes vals = Some (Inr m)))) \<and>
   (inp \<noteq> [] \<longrightarrow>
      (\<exists>m. Matrix_from_map debug S D None junk inp = Some (Inr m) \<and>
           rows m = (Max (fst ` fst ` set inp) + 1) mod 2 ^ 64 \<and>
           columns m = (Max (snd ` fst ` set inp) + 1) mod 2 ^ 64 \<and>
           (Max (fst ` fst ` set inp) < 2 ^ 64 - 1 \<longrightarrow> rows m = Max (fst ` fst ` set inp) + 1) \<and>
           (Max (snd ` fst ` set inp) < 2 ^ 64 - 1 \<longrightarrow>
              columns m = Max (snd ` fst ` set inp) + 1)))"
proof -
  have wrap: "d = (x + 1) mod 2 ^ 64 \<and> (x < 2 ^ 64 - 1 \<longrightarrow> d = x + 1)"
    if "d = size_t_increment x" for d x :: nat
    using that by (simp add: size_t_increment_def)
  have tri: "rows m = (Max (fst ` set indexes) + 1) mod 2 ^ 64 \<and>
           columns m = (Max (snd ` set indexes) + 1) mod 2 ^ 64 \<and>
           (Max (fst ` set indexes) < 2 ^ 64 - 1 \<longrightarrow> rows m = Max (fst ` set indexes) + 1) \<and>
           (Max (snd ` set indexes) < 2 ^ 64 - 1 \<longrightarrow> columns m = Max (snd ` set indexes) + 1)"
    if a: "indexes \<noteq> [] \<and> length indexes = length vals"
      and r: "Matrix_from_triplets debug S D None junk indexes vals = Some (Inr m)" for m
  proof -
    have "debug \<longrightarrow> distinct indexes"
    proof (intro impI, rule ccontr)
      assume dbg: "debug" and nd: "\<not> distinct indexes"
      from triplets_with_duplicate[OF nd, of S D None junk vals] obtain e where
        "Matrix_from_triplets True S D None junk indexes vals = Some (Inl e)" by blast
      with r dbg show False by simp
    qed
    with a have "indexes \<noteq> [] \<and> length indexes = length vals \<and> (debug \<longrightarrow> distinct indexes)"
      by simp
    from triplets_dimensions[OF this, of S D junk] obtain m' where
      "Matrix_from_triplets debug S D None junk indexes vals = Some (Inr m')"
      "rows m' = size_t_increment (Max (fst ` set indexes))"
      "columns m' = size_t_increment (Max (snd ` set indexes))"
      by blast
    with r have "rows m = size_t_increment (Max (fst ` set indexes))"
      "columns m = size_t_increment (Max (snd ` set indexes))"
      by simp_all
    from wrap[OF this(1)] wrap[OF this(2)] show ?thesis by blast
  qed
  have ex: "\<exists>m. Matrix_from_triplets debug S D None junk indexes vals = Some (Inr m)"
    if "indexes \<noteq> [] \<and> length indexes = length vals" "debug \<longrightarrow> distinct indexes"
  proof -
    from that have "indexes \<noteq> [] \<and> length indexes = length vals \<and> (debug \<longrightarrow> distinct indexes)"
      by simp
    from triplets_dimensions[OF this, of S D junk] show ?thesis by blast
  qed
  have mp: "\<exists>m. Matrix_from_map debug S D None junk inp = Some (Inr m) \<and>
           rows m = (Max (fst ` fst ` set inp) + 1) mod 2 ^ 64 \<and>
           columns m = (Max (snd ` fst ` set inp) + 1) mod 2 ^ 64 \<and>
           (Max (fst ` fst ` set inp) < 2 ^ 64 - 1 \<longrightarrow> rows m = Max (fst ` fst ` set inp) + 1) \<and>
           (Max (snd ` fst ` set inp) < 2 ^ 64 - 1 \<longrightarrow>
              columns m = Max (snd ` fst ` set inp) + 1)"
    if "inp \<noteq> []"
  proof -
    from map_dimensions[OF that, of debug S D junk] obtain m where
      m: "Matrix_from_map debug S D None junk inp = Some (Inr m)"
      and d: "rows m = size_t_increment (Max (fst ` fst ` set inp))"
        "columns m = size_t_increment (Max (snd ` fst ` set inp))"
      by blast
    from m wrap[OF d(1)] wrap[OF d(2)] show ?thesis by blast
  qed
  from tri ex mp show ?thesis by blast
qed

theorem inferred_dimensions_witness:
  "(\<exists>m. Matrix_from_triplets True columnMajor COO None \<lparr>rows = 0, columns = 0\<rparr>
           [(0, 0), (12, 16)] [1, - 3 :: int] = Some (Inr m) \<and> rows m = 13 \<and> columns m = 17) \<and>
   (\<exists>m. Matrix_from_map True columnMajor COOmap None \<lparr>rows = 0, columns = 0\<rparr>
           [((0, 0), 10), ((13, 14), - 6 :: int)] = Some (Inr m) \<and> rows m = 14 \<and> columns m = 15)"
proof -
  let ?ind = "[(0, 0), (12 :: nat, 16 :: nat)]" and ?val = "[1, - 3 :: int]"
  let ?inp = "[((0, 0), 10), ((13 :: nat, 14 :: nat), - 6 :: int)]"
  let ?junk = "\<lparr>rows = 0, columns = 0\<rparr>"
  have h: "?ind \<noteq> [] \<and> length ?ind = length ?val" and d: "True \<longrightarrow> distinct ?ind"
    by simp_all
  have bx: "Max (fst ` set ?ind) < 2 ^ 64 - 1" and by': "Max (snd ` set ?ind) < 2 ^ 64 - 1"
    by simp_all
  have mx: "Max (fst ` set ?ind) + 1 = 13" "Max (snd ` set ?ind) + 1 = 17"
    by simp_all
  have cx: "Max (fst ` fst ` set ?inp) < 2 ^ 64 - 1" and cy: "Max (snd ` fst ` set ?inp) < 2 ^ 64 - 1"
    by simp_all
  have my: "Max (fst ` fst ` set ?inp) + 1 = 14" "Max (snd ` fst ` set ?inp) + 1 = 15"
    by simp_all
  note inst = inferred_dimensions [of ?ind ?val True columnMajor COO ?junk ?inp]
  from inst [THEN conjunct1, THEN mp, OF h, THEN conjunct2, THEN mp, OF d]
  obtain m where
    m: "Matrix_from_triplets True columnMajor COO None ?junk ?ind ?val = Some (Inr m)" ..
  note all = inst [THEN conjunct1, THEN mp, OF h, THEN conjunct1, THEN spec, THEN mp, OF m]
  from all [THEN conjunct2, THEN conjunct2, THEN conjunct1, THEN mp, OF bx]
  have r: "rows m = 13" unfolding mx .
  from all [THEN conjunct2, THEN conjunct2, THEN conjunct2, THEN mp, OF by']
  have c: "columns m = 17" unfolding mx .
  from m r c have a: "\<exists>m. Matrix_from_triplets True columnMajor COO None ?junk ?ind ?val = Some (Inr m) \<and>
                     rows m = 13 \<and> columns m = 17" by blast
  have n: "?inp \<noteq> []" by simp
  from inferred_dimensions [of "[]" "[]" True columnMajor COOmap ?junk ?inp,
         THEN conjunct2, THEN mp, OF n]
  obtain m' where m': "Matrix_from_map True columnMajor COOmap None ?junk ?inp = Some (Inr m')"
    and i1: "Max (fst ` fst ` set ?inp) < 2 ^ 64 - 1 \<longrightarrow> rows m' = Max (fst ` fst ` set ?inp) + 1"
    and i2: "Max (snd ` fst ` set ?inp) < 2 ^ 64 - 1 \<longrightarrow> columns m' = Max (snd ` fst ` set ?inp) + 1"
    by (elim exE conjE)
  from mp[OF i1 cx] have r': "rows m' = 14" unfolding my .
  from mp[OF i2 cy] have c': "columns m' = 15" unfolding my .
  from m' r' c' have b: "\<exists>m. Matrix_from_map True columnMajor COOmap None ?junk ?inp = Some (Inr m) \<and>
              rows m = 14 \<and> columns m = 15" by blast
  from a b show ?thesis by (rule conjI)
qed


text \<open>
  Claim C8 as the specification words it, for every input, fails at the index \<open>SIZE_MAX\<close>,
  which the constructors accept in both builds: the largest row index plus one is
  \<open>2^64\<close>, and the matrix built has \<open>0\<close> rows, with either dynamic format and from triplets as
  from a map.
\<close>

theorem inferred_dimensions_wrap_around:
  "Matrix_from_triplets True rowMajor COO None \<lparr>rows = 0, columns = 0\<rparr>
     [(18446744073709551615, 0)] [1] = Some (Inr top_dynamic) \<and>
   Matrix_from_triplets False rowMajor COOmap None \<lparr>rows = 0, columns = 0\<rparr>
     [(18446744073709551615, 0)] [1] = Some (Inr top_dynamic_map) \<and>
   Matrix_from_map False rowMajor COO None \<lparr>rows = 0, columns = 0\<rparr>
     [((18446744073709551615, 0), 1)] = Some (Inr top_dynamic) \<and>
   Matrix_from_map True rowMajor COOmap None \<lparr>rows = 0, columns = 0\<rparr>
     [((18446744073709551615, 0), 1)] = Some (Inr top_dynamic_map) \<and>
   rows top_dynamic = 0 \<and> rows top_dynamic_map = 0 \<and>
   Max (fst ` set [(18446744073709551615 :: nat, 0 :: nat)]) + 1 = 18446744073709551616"
proof -
  have inc: "size_t_increment 18446744073709551615 = 0" "size_t_increment 0 = 1"
    by (simp_all add: size_t_increment_def)
  have a: "Matrix_from_triplets True rowMajor COO None \<lparr>rows = 0, columns = 0\<rparr>
     [(18446744073709551615, 0)] [1] = Some (Inr top_dynamic)"
    by (simp add: Matrix_from_triplets_def COO_from_triplets_def COO_build_def
          sort_permutation_def std_sort_def apply_permutation_def permute_cycle.simps
          Matrix_of_dynamic_def resize_def top_dynamic_def inc)
  have b: "Matrix_from_triplets False rowMajor COOmap None \<lparr>rows = 0, columns = 0\<rparr>
     [(18446744073709551615, 0)] [1] = Some (Inr top_dynamic_map)"
    by (simp add: Matrix_from_triplets_def COOmap_from_triplets_def map_assign_def
          Matrix_of_dynamic_def resize_def top_dynamic_map_def inc)
  have c: "Matrix_from_map False rowMajor COO None \<lparr>rows = 0, columns = 0\<rparr>
     [((18446744073709551615, 0), 1)] = Some (Inr top_dynamic)"
    by (simp add: Matrix_from_map_def COO_from_map_def COO_build_def
          sort_permutation_def std_sort_def apply_permutation_def permute_cycle.simps
          Matrix_of_dynamic_def resize_def top_dynamic_def inc)
  have d: "Matrix_from_map True rowMajor COOmap None \<lparr>rows = 0, columns = 0\<rparr>
     [((18446744073709551615, 0), 1)] = Some (Inr top_dynamic_map)"
    by (simp add: Matrix_from_map_def COOmap_from_map_def map_assign_def
          Matrix_of_dynamic_def resize_def top_dynamic_map_def inc)
  have e: "rows top_dynamic = 0" "rows top_dynamic_map = 0"
    by (simp_all add: top_dynamic_def top_dynamic_map_def)
  have f: "Max (fst ` set [(18446744073709551615 :: nat, 0 :: nat)]) + 1 = 18446744073709551616"
    by simp
  from a b c d e f show ?thesis by (intro conjI)
qed


text \<open>
  Claim C7. In a \<open>DEBUG\<close> build the constructor from triplets, with either dynamic
  format and with or without dimensions, fails on every input that repeats a coordinate;
  when the two sequences have the same length and the indices are within the supplied
  dimensions, the assertion that fails is the one on the repeated coordinate.
\<close>

theorem duplicate_coordinates_rejected:
  fixes vals :: "'a::zero list"
  assumes "\<not> distinct indexes"
  shows "\<exists>e. Matrix_from_triplets True S D given junk indexes vals = Some (Inl e) \<and>
             (length indexes = length vals \<and>
              (\<forall>p\<in>set indexes. case given of None \<Rightarrow> True | Some (r, c) \<Rightarrow> fst p < r \<and> snd p < c)
              \<longrightarrow> e = Redefinition)"
  using assms by (rule triplets_with_duplicate)

theorem duplicate_coordinates_rejected_witness:
  "Matrix_from_triplets True columnMajor COO None \<lparr>rows = 0, columns = 0\<rparr>
       [(2, 1), (0, 0), (1, 5), (2, 1)] [1, 2, 3, 4 :: int] = Some (Inl Redefinition) \<and>
   Matrix_from_triplets True rowMajor COOmap (Some (3, 6)) \<lparr>rows = 0, columns = 0\<rparr>
       [(2, 1), (0, 0), (1, 5), (2, 1)] [1, 2, 3, 4 :: int] = Some (Inl Redefinition)"
proof -
  let ?ind = "[(2, 1), (0, 0), (1, 5), (2 :: nat, 1 :: nat)]" and ?val = "[1, 2, 3, 4 :: int]"
  let ?junk = "\<lparr>rows = 0, columns = 0\<rparr>"
  have d: "\<not> distinct ?ind" by simp
  have h1: "length ?ind = length ?val \<and>
            (\<forall>p\<in>set ?ind. case None of None \<Rightarrow> True | Some (r, c) \<Rightarrow> fst p < r \<and> snd p < c)"
    by simp
  have h2: "length ?ind = length ?val \<and>
            (\<forall>p\<in>set ?ind. case Some (3 :: nat, 6 :: nat) of None \<Rightarrow> True
                            | Some (r, c) \<Rightarrow> fst p < r \<and> snd p < c)"
    by simp
  from duplicate_coordinates_rejected [OF d, of columnMajor COO None ?junk ?val]
  obtain e where e1: "Matrix_from_triplets True columnMajor COO None ?junk ?ind ?val = Some (Inl e)"
    and e2: "length ?ind = length ?val \<and>
       (\<forall>p\<in>set ?ind. case None of None \<Rightarrow> True | Some (r, c) \<Rightarrow> fst p < r \<and> snd p < c)
     \<longrightarrow> e = Redefinition"
    by (elim exE conjE)
  from mp[OF e2 h1] e1 have a: "Matrix_from_triplets True columnMajor COO None ?junk ?ind ?val
                   = Some (Inl Redefinition)" by simp
  from duplicate_coordinates_rejected [OF d, of rowMajor COOmap "Some (3, 6)" ?junk ?val]
  obtain f where f1: "Matrix_from_triplets True rowMajor COOmap (Some (3, 6)) ?junk ?ind ?val = Some (Inl f)"
    and f2: "length ?ind = length ?val \<and>
       (\<forall>p\<in>set ?ind. case Some (3 :: nat, 6 :: nat) of None \<Rightarrow> True
                       | Some (r, c) \<Rightarrow> fst p < r \<and> snd p < c)
     \<longrightarrow> f = Redefinition"
    by (elim exE conjE)
  from mp[OF f2 h2] f1 have b: "Matrix_from_triplets True rowMajor COOmap (Some (3, 6)) ?junk ?ind ?val
                   = Some (Inl Redefinition)" by simp
  from a b show ?thesis by (rule conjI)
qed

end
